theory Spec2Isabelle
  imports Main "HOL-Library.Word"
begin

unbundle bit_operations_syntax

chapter \<open>Audio extraction and remote transcription (package core)\<close>

text \<open>
  A shallow embedding of the Go package \<open>core\<close>: the MP4 audio extractor
  (\<open>detectAudioCodec\<close>, \<open>videoToAudio\<close>, \<open>makeADTSHeader\<close>,
  \<open>aacFrequencyIndex\<close>) and the transcription client (\<open>Run\<close>, \<open>upload\<close>,
  \<open>createTask\<close>, \<open>pollResult\<close>, \<open>toText\<close>).

  The package exists in two variants. The variant with the ADTS synthesizer, built on
  \<open>abema/go-mp4\<close>, is the one embedded under the source's own names. The variant built on
  \<open>gomedia/go-mp4\<close> (\<open>core/asr.go\<close>) has the same \<open>Run\<close>, \<open>upload\<close> and
  \<open>createTask\<close>; where its functions differ they are embedded with the suffix
  \<open>_gomedia\<close>.
\<close>

section \<open>Data model\<close>

type_synonym u8 = "8 word"
type_synonym u16 = "16 word"
type_synonym u32 = "32 word"
type_synonym u64 = "64 word"

text \<open>Go's \<open>[]byte\<close>.\<close>

type_synonym bytes = "u8 list"

text \<open>\<open>ASRUtterance\<close> and \<open>ASRResult\<close>; Go's \<open>int\<close> fields are read as integers.\<close>

record ASRUtterance =
  Transcript :: string
  StartTime :: int
  EndTime :: int

record ASRResult =
  Utterances :: "ASRUtterance list"

text \<open>
  \<open>gomp4.MP4AInfo\<close> of \<open>abema/go-mp4\<close>: the object type indication, the audio object
  type and the channel count of an \<open>mp4a\<close> sample entry.
\<close>

record MP4AInfo =
  OTI :: u8
  AudOTI :: u8
  ChannelCount :: u16

section \<open>ADTS header synthesis\<close>

text \<open>
  \<open>makeADTSHeader(profile, freqIdx, chanConf uint8, frameLen uint16) []byte\<close>.
  All arithmetic is Go's fixed-width arithmetic: \<open>frameLen + 7\<close> wraps at 16 bits, the
  shifts of \<open>uint8\<close> values drop the bits that leave the byte, and \<open>byte(x)\<close> keeps the
  low eight bits of \<open>x\<close>.
\<close>

definition makeADTSHeader :: "u8 \<Rightarrow> u8 \<Rightarrow> u8 \<Rightarrow> u16 \<Rightarrow> bytes" where
  "makeADTSHeader profile freqIdx chanConf frameLen =
     (let adtsLen = frameLen + 7 in
      [0xFF,
       0xF1,
       push_bit 6 profile OR push_bit 2 freqIdx OR drop_bit 2 chanConf,
       push_bit 6 (chanConf AND 0x3) OR ucast (drop_bit 11 adtsLen AND 0x3),
       ucast (drop_bit 3 adtsLen),
       push_bit 5 (ucast (adtsLen AND 0x7)) OR 0x1F,
       0xFC])"

text \<open>
  The channel configuration handed to \<open>makeADTSHeader\<close> by \<open>videoToAudio\<close>:
  \<^verbatim>\<open>
  channelCount := uint8(2)
  if audioTrack.MP4A != nil && audioTrack.MP4A.ChannelCount > 0 {
      channelCount = uint8(audioTrack.MP4A.ChannelCount)
  }\<close>
\<close>

definition channelCount :: "MP4AInfo option \<Rightarrow> u8" where
  "channelCount mp4a =
     (case mp4a of
        None \<Rightarrow> 2
      | Some m \<Rightarrow> if ChannelCount m > 0 then ucast (ChannelCount m) else 2)"

text \<open>
  How a decoder reads the 13-bit \<open>aac_frame_length\<close> field back from a header: the low two
  bits of byte 3, all of byte 4 and the high three bits of byte 5.
\<close>

definition adts_frame_length :: "bytes \<Rightarrow> nat" where
  "adts_frame_length h =
     (unat (h ! 3) mod 4) * 2048 + unat (h ! 4) * 8 + unat (h ! 5) div 32"

section \<open>Transcript text\<close>

text \<open>
  \<open>toText\<close> walks \<open>result.Utterances\<close> with its index \<open>i\<close>, appends the transcript
  to the builder and, when \<open>i < len(result.Utterances) - 1\<close>, a newline. The loop is
  \<open>toText_loop\<close>: \<open>n\<close> is \<open>len(result.Utterances)\<close>, \<open>i\<close> the index of the head of
  the remaining utterances, \<open>text\<close> the builder.
\<close>

fun toText_loop :: "nat \<Rightarrow> nat \<Rightarrow> ASRUtterance list \<Rightarrow> string \<Rightarrow> string" where
  "toText_loop n i [] text = text"
| "toText_loop n i (utterance # rest) text =
     toText_loop n (i + 1) rest
       (if int i < int n - 1
        then text @ Transcript utterance @ [CHR 0x0A]
        else text @ Transcript utterance)"

definition toText :: "ASRResult \<Rightarrow> string" where
  "toText result = toText_loop (length (Utterances result)) 0 (Utterances result) []"

text \<open>The \<open>gomedia\<close> variant of \<open>toText\<close> writes the transcripts with nothing between them.\<close>

fun toText_loop_gomedia :: "ASRUtterance list \<Rightarrow> string \<Rightarrow> string" where
  "toText_loop_gomedia [] text = text"
| "toText_loop_gomedia (utterance # rest) text =
     toText_loop_gomedia rest (text @ Transcript utterance)"

definition toText_gomedia :: "ASRResult \<Rightarrow> string" where
  "toText_gomedia result = toText_loop_gomedia (Utterances result) []"


section \<open>Codec classification\<close>

text \<open>\<open>audioCodecType\<close>, in the order of its \<open>iota\<close> constants.\<close>

datatype audioCodecType = audioCodecAAC | audioCodecMP3 | audioCodecHEAAC | audioCodecUnknown

text \<open>
  The codec names are built with \<open>fmt.Sprintf\<close>: \<open>%d\<close> of a \<open>uint8\<close> is its decimal
  numeral and \<open>%02X\<close> two upper-case hexadecimal digits. Three of the names contain Chinese
  text; its UTF-8 bytes are written out.
\<close>

definition digit_char :: "nat \<Rightarrow> char" where
  "digit_char d = char_of (48 + d)"

definition hex_char :: "nat \<Rightarrow> char" where
  "hex_char d = (if d < 10 then char_of (48 + d) else char_of (55 + d))"

definition sprintf_d :: "u8 \<Rightarrow> string" where
  "sprintf_d b =
     (let n = unat b in
      if n < 10 then [digit_char n]
      else if n < 100 then [digit_char (n div 10), digit_char (n mod 10)]
      else [digit_char (n div 100), digit_char (n div 10 mod 10), digit_char (n mod 10)])"

definition sprintf_02X :: "u8 \<Rightarrow> string" where
  "sprintf_02X b = [hex_char (unat b div 16), hex_char (unat b mod 16)]"

definition zh_default :: string where
  "zh_default = [CHR 0xE9, CHR 0xBB, CHR 0x98, CHR 0xE8, CHR 0xAE, CHR 0xA4]"

definition zh_unsupported :: string where
  "zh_unsupported =
     [CHR 0xE4, CHR 0xB8, CHR 0x8D, CHR 0xE6, CHR 0x94, CHR 0xAF, CHR 0xE6, CHR 0x8C, CHR 0x81]"

text \<open>
  \<open>detectAudioCodec(mp4aInfo *gomp4.MP4AInfo) (audioCodecType, uint8, string)\<close>: a nil
  pointer is \<open>None\<close>. The outer \<open>switch\<close> is on the OTI; only its case \<open>0x40\<close> reads the
  audio object type, in the inner \<open>switch\<close>.
\<close>

definition detectAudioCodec :: "MP4AInfo option \<Rightarrow> audioCodecType \<times> u8 \<times> string" where
  "detectAudioCodec mp4aInfo =
     (case mp4aInfo of
        None \<Rightarrow> (audioCodecAAC, 1, ''aac ('' @ zh_default @ ''LC)'')
      | Some info \<Rightarrow>
          (let oti = OTI info in
           if oti = 0x6B then (audioCodecMP3, 0, ''mp3 (MPEG-1 Layer III)'')
           else if oti = 0x69 then (audioCodecMP3, 0, ''mp3 (MPEG-2 Layer III)'')
           else if oti = 0x66 then (audioCodecAAC, 0, ''aac (MPEG-2 Main)'')
           else if oti = 0x67 then (audioCodecAAC, 1, ''aac (MPEG-2 LC)'')
           else if oti = 0x68 then (audioCodecAAC, 2, ''aac (MPEG-2 SSR)'')
           else if oti = 0x40 then
             (let audOTI = AudOTI info in
              if audOTI = 1 then (audioCodecAAC, 0, ''aac (MPEG-4 Main)'')
              else if audOTI = 2 then (audioCodecAAC, 1, ''aac (MPEG-4 LC)'')
              else if audOTI = 3 then (audioCodecAAC, 2, ''aac (MPEG-4 SSR)'')
              else if audOTI = 4 then (audioCodecAAC, 3, ''aac (MPEG-4 LTP)'')
              else if audOTI = 5 then
                (audioCodecHEAAC, 1, ''aac (HE-AAC/SBR - '' @ zh_unsupported @ '')'')
              else if audOTI = 29 then
                (audioCodecHEAAC, 1, ''aac (HE-AACv2/PS - '' @ zh_unsupported @ '')'')
              else (audioCodecAAC, 1,
                    ''aac (MPEG-4 AudOTI='' @ sprintf_d audOTI @ '' (as LC))''))
           else (audioCodecAAC, 1, ''aac (OTI=0x'' @ sprintf_02X oti @ '' as LC)'')))"

text \<open>
  \<open>aacFrequencyIndex(sampleRate uint32) uint8\<close>: a scan of the rate table for an exact
  match, then a scan for the first rate not above the input, then index 4.
\<close>

definition rates :: "u32 list" where
  "rates = [96000, 88200, 64000, 48000, 44100, 32000, 24000, 22050, 16000, 12000, 11025,
            8000, 7350]"

fun scan_rates :: "(u32 \<Rightarrow> bool) \<Rightarrow> nat \<Rightarrow> u32 list \<Rightarrow> nat option" where
  "scan_rates hit i [] = None"
| "scan_rates hit i (r # rs) = (if hit r then Some i else scan_rates hit (i + 1) rs)"

definition aacFrequencyIndex :: "u32 \<Rightarrow> u8" where
  "aacFrequencyIndex sampleRate =
     (case scan_rates (\<lambda>r. sampleRate = r) 0 rates of
        Some i \<Rightarrow> of_nat i
      | None \<Rightarrow>
          (case scan_rates (\<lambda>r. sampleRate \<ge> r) 0 rates of
             Some i \<Rightarrow> of_nat i
           | None \<Rightarrow> 4))"

section \<open>Tracks and track selection\<close>

text \<open>
  The part of \<open>gomp4.ProbeInfo\<close> that \<open>videoToAudio\<close> reads: per track its id, time
  scale, codec, encryption flag, sample table, chunk table and \<open>mp4a\<close> information (a
  pointer, nil when absent). \<open>Codec\<close> is the library's enumeration. Of a sample only its
  size is read. \<open>DataOffset\<close> is taken at 64 bits, which covers the narrower offsets of
  older releases of the library.
\<close>

datatype Codec = CodecUnknown | CodecAVC1 | CodecMP4A

record Sample =
  Size :: u32

record Chunk =
  DataOffset :: u64
  SamplesPerChunk :: u32

record Track =
  TrackID :: u32
  Timescale :: u32
  Codec :: Codec
  Encrypted :: bool
  Samples :: "Sample list"
  Chunks :: "Chunk list"
  MP4A :: "MP4AInfo option"

text \<open>
  The selection loop of \<open>videoToAudio\<close>: the first track whose codec is \<open>CodecMP4A\<close>,
  then \<open>break\<close>; \<open>None\<close> is the nil \<open>audioTrack\<close>.
\<close>

fun findAudioTrack :: "Track list \<Rightarrow> Track option" where
  "findAudioTrack [] = None"
| "findAudioTrack (t # ts) = (if Codec t = CodecMP4A then Some t else findAudioTrack ts)"

text \<open>
  The \<open>gomedia\<close> variant selects among \<open>mp4.TrackInfo\<close> values by their codec id
  \<open>Cid\<close>: every AAC, MP3 or Opus track met is assigned to \<open>audioTrack\<close>, and the loop
  breaks at an AAC track. The second argument of the loop is the current \<open>audioTrack\<close>.
\<close>

datatype MP4_CODEC_TYPE =
  MP4_CODEC_H264 | MP4_CODEC_H265 | MP4_CODEC_AAC | MP4_CODEC_G711A | MP4_CODEC_G711U
| MP4_CODEC_MP2 | MP4_CODEC_MP3 | MP4_CODEC_OPUS

record TrackInfo =
  Cid :: MP4_CODEC_TYPE
  TrackId :: u32

fun findAudioTrack_gomedia_loop :: "TrackInfo list \<Rightarrow> TrackInfo option \<Rightarrow> TrackInfo option"
  where
  "findAudioTrack_gomedia_loop [] audioTrack = audioTrack"
| "findAudioTrack_gomedia_loop (t # ts) audioTrack =
     (if Cid t = MP4_CODEC_AAC \<or> Cid t = MP4_CODEC_MP3 \<or> Cid t = MP4_CODEC_OPUS
      then (if Cid t = MP4_CODEC_AAC then Some t
            else findAudioTrack_gomedia_loop ts (Some t))
      else findAudioTrack_gomedia_loop ts audioTrack)"

definition findAudioTrack_gomedia :: "TrackInfo list \<Rightarrow> TrackInfo option" where
  "findAudioTrack_gomedia tracks = findAudioTrack_gomedia_loop tracks None"

section \<open>Errors\<close>

text \<open>
  One constructor for each \<open>fmt.Errorf\<close> or returned \<open>err\<close> of the package, carrying the
  values the message is formatted from. \<open>PanicSliceBounds\<close> is not a returned error: it is
  the run-time panic of a slice expression \<open>fileData[start:end]\<close> whose bounds are out of
  range, which ends the call without a result.
\<close>

datatype error =
    ErrOpen
  | ErrProbe
  | ErrNoAudioTrack "(Codec \<times> bool) list"
  | ErrUnsupportedCodec string
  | ErrCreate
  | ErrNoSampleTable
  | ErrSeek nat "64 word"
  | ErrRead nat "64 word" u32
  | ErrNoAudioData
  | ErrStat
  | ErrReadFile
  | ErrNewRequest
  | ErrTransport
  | ErrReadBody
  | ErrDecode
  | ErrRequestUpload int
  | ErrChunkRequest
  | ErrChunkTransport nat
  | ErrChunkStatus nat int string
  | ErrCommit int
  | ErrCreateTask int string
  | ErrQuery int string
  | ErrResultParse
  | ErrASRFailed string
  | ErrTimeout
  | ErrVideoToAudio error
  | ErrUpload error
  | ErrTask error
  | ErrPoll error
  | PanicSliceBounds int int

section \<open>Paths and strings of the standard library\<close>

text \<open>
  \<open>filepath.Ext\<close> scans the path from its end up to the last path separator and returns
  the suffix that starts at the last dot met, or the empty string. The separator is \<open>/\<close>,
  as on Linux and macOS. \<open>Ext_scan\<close> takes the reversed path and the characters already
  passed.
\<close>

definition IsPathSeparator :: "char \<Rightarrow> bool" where
  "IsPathSeparator c = (c = CHR ''/'')"

fun Ext_scan :: "string \<Rightarrow> string \<Rightarrow> string" where
  "Ext_scan [] passed = []"
| "Ext_scan (c # before) passed =
     (if IsPathSeparator c then []
      else if c = CHR ''.'' then c # passed
      else Ext_scan before (c # passed))"

definition Ext :: "string \<Rightarrow> string" where
  "Ext path = Ext_scan (rev path) []"

text \<open>\<open>strings.TrimSuffix\<close> and \<open>strings.TrimPrefix\<close>.\<close>

definition TrimSuffix :: "string \<Rightarrow> string \<Rightarrow> string" where
  "TrimSuffix s suffix =
     (if length suffix \<le> length s \<and> drop (length s - length suffix) s = suffix
      then take (length s - length suffix) s else s)"

definition TrimPrefix :: "string \<Rightarrow> string \<Rightarrow> string" where
  "TrimPrefix s prefix =
     (if take (length prefix) s = prefix then drop (length prefix) s else s)"

text \<open>
  \<open>strings.ToLower\<close> on the ASCII letters; the other bytes are kept. (On letters outside
  ASCII the library applies the Unicode mapping; no such letter lowercases to a letter
  that occurs in the extensions \<open>Run\<close> tests for.)
\<close>

definition lower_char :: "char \<Rightarrow> char" where
  "lower_char c =
     (let n = (of_char c :: nat) in if 65 \<le> n \<and> n \<le> 90 then char_of (n + 32) else c)"

definition ToLower :: "string \<Rightarrow> string" where
  "ToLower s = map lower_char s"

text \<open>\<open>strings.Join\<close>.\<close>

fun Join :: "string list \<Rightarrow> string \<Rightarrow> string" where
  "Join [] sep = []"
| "Join [a] sep = a"
| "Join (a # as) sep = a @ sep @ Join as sep"

text \<open>\<open>strconv.Itoa\<close> of a length, a natural number.\<close>

function Itoa :: "nat \<Rightarrow> string" where
  "Itoa n = (if n < 10 then [digit_char n] else Itoa (n div 10) @ [digit_char (n mod 10)])"
  by pat_completeness auto
termination
  by (relation "measure id") auto

declare Itoa.simps [simp del]

section \<open>Audio extraction\<close>

text \<open>
  The file system is a map from paths to contents. \<open>os.Open\<close> and \<open>os.ReadFile\<close> of a
  path outside its domain fail. The source discards the results of the writes to the
  output file and of \<open>Sync\<close>; a write adds its bytes to the content of the output file,
  which is given to the file system when the call returns.
\<close>

type_synonym filesystem = "string \<Rightarrow> bytes option"

text \<open>
  The host that \<open>videoToAudio\<close> runs on. \<open>Probe\<close> stands for \<open>gomp4.Probe\<close>: from the
  content of the input file to its track list, \<open>None\<close> when probing fails.
  \<open>CreateFails\<close> and \<open>StatFails\<close> tell the paths at which \<open>os.Create\<close> and
  \<open>os.Stat\<close> return an error.
\<close>

record host =
  Probe :: "bytes \<Rightarrow> Track list option"
  CreateFails :: "string \<Rightarrow> bool"
  StatFails :: "string \<Rightarrow> bool"

text \<open>The local type \<open>sampleInfo\<close>; \<open>offset\<close> is an \<open>int64\<close>, read with \<open>sint\<close>.\<close>

record sampleInfo =
  offset :: "64 word"
  size_u32 :: u32

text \<open>
  The table of sample offsets. The inner loop runs \<open>i\<close> from 0 while
  \<open>i < chunk.SamplesPerChunk && sampleIdx < len(audioTrack.Samples)\<close>; its first
  argument counts the iterations that \<open>SamplesPerChunk\<close> still allows. The state of both
  loops is the pair of \<open>sampleOffsets\<close> and \<open>sampleIdx\<close>.
\<close>

fun chunk_loop ::
  "nat \<Rightarrow> 64 word \<Rightarrow> Sample list \<Rightarrow> sampleInfo list \<times> nat \<Rightarrow> sampleInfo list \<times> nat" where
  "chunk_loop 0 chunkOffset samples (sampleOffsets, sampleIdx) = (sampleOffsets, sampleIdx)"
| "chunk_loop (Suc k) chunkOffset samples (sampleOffsets, sampleIdx) =
     (if sampleIdx < length samples then
        (let sample = samples ! sampleIdx in
         chunk_loop k (chunkOffset + ucast (Size sample)) samples
           (sampleOffsets @ [\<lparr>offset = chunkOffset, size_u32 = Size sample\<rparr>], sampleIdx + 1))
      else (sampleOffsets, sampleIdx))"

fun chunks_loop ::
  "Chunk list \<Rightarrow> Sample list \<Rightarrow> sampleInfo list \<times> nat \<Rightarrow> sampleInfo list \<times> nat" where
  "chunks_loop [] samples st = st"
| "chunks_loop (chunk # chunks) samples st =
     chunks_loop chunks samples
       (chunk_loop (unat (SamplesPerChunk chunk)) (DataOffset chunk) samples st)"

definition buildSampleOffsets :: "Track \<Rightarrow> sampleInfo list" where
  "buildSampleOffsets audioTrack =
     fst (chunks_loop (Chunks audioTrack) (Samples audioTrack) ([], 0))"

text \<open>
  \<open>inputFile.Seek(si.offset, io.SeekStart)\<close> fails on a negative offset, and
  \<open>io.ReadFull\<close> fails unless \<open>si.size\<close> bytes are there from the offset on.
\<close>

definition ReadFull :: "bytes \<Rightarrow> nat \<Rightarrow> nat \<Rightarrow> bytes option" where
  "ReadFull inputFile pos n =
     (if pos + n \<le> length inputFile then Some (take n (drop pos inputFile)) else None)"

text \<open>
  The extraction loop over \<open>sampleOffsets\<close>, with its index \<open>idx\<close>. The state is the
  content written to the output file and \<open>hasData\<close>. An error leaves the loop; the
  caller removes the output file.
\<close>

fun extractSamples ::
  "bytes \<Rightarrow> audioCodecType \<Rightarrow> u8 \<Rightarrow> u8 \<Rightarrow> u8 \<Rightarrow> nat \<Rightarrow> sampleInfo list \<Rightarrow> bytes \<times> bool
     \<Rightarrow> error + bytes \<times> bool" where
  "extractSamples inputFile codecType aacProfile freqIdx chans idx [] st = Inr st"
| "extractSamples inputFile codecType aacProfile freqIdx chans idx (si # rest) (out, hasData) =
     (if size_u32 si = 0 then
        extractSamples inputFile codecType aacProfile freqIdx chans (idx + 1) rest (out, hasData)
      else if sint (offset si) < 0 then Inl (ErrSeek idx (offset si))
      else
        (case ReadFull inputFile (nat (sint (offset si))) (unat (size_u32 si)) of
           None \<Rightarrow> Inl (ErrRead idx (offset si) (size_u32 si))
         | Some buf \<Rightarrow>
             (let adts = (if codecType = audioCodecAAC
                          then makeADTSHeader aacProfile freqIdx chans (ucast (size_u32 si))
                          else [])
              in extractSamples inputFile codecType aacProfile freqIdx chans (idx + 1) rest
                   (out @ adts @ buf, True))))"

text \<open>
  \<open>videoToAudio(inputPath string) (string, string, error)\<close>. The result comes with the
  file system the call leaves behind: the failures after \<open>os.Create\<close> remove the output
  file, except the failure of \<open>os.Stat\<close>, which returns with the file in place.
\<close>

definition videoToAudio ::
  "host \<Rightarrow> filesystem \<Rightarrow> string \<Rightarrow> (error + string \<times> string) \<times> filesystem" where
  "videoToAudio H fs inputPath =
     (case fs inputPath of
        None \<Rightarrow> (Inl ErrOpen, fs)
      | Some inputFile \<Rightarrow>
     (case Probe H inputFile of
        None \<Rightarrow> (Inl ErrProbe, fs)
      | Some tracks \<Rightarrow>
     (case findAudioTrack tracks of
        None \<Rightarrow> (Inl (ErrNoAudioTrack (map (\<lambda>t. (Codec t, Encrypted t)) tracks)), fs)
      | Some audioTrack \<Rightarrow>
     (case detectAudioCodec (MP4A audioTrack) of (codecType, aacProfile, codecName) \<Rightarrow>
      if codecType = audioCodecHEAAC then (Inl (ErrUnsupportedCodec codecName), fs)
      else
        (let (outputExt, audioFormat) =
               (case codecType of
                  audioCodecMP3 \<Rightarrow> (''_temp.mp3'', ''mp3'')
                | audioCodecAAC \<Rightarrow> (''_temp.aac'', ''aac'')
                | _ \<Rightarrow> (''_temp.aac'', ''aac''));
             chans = channelCount (MP4A audioTrack);
             freqIdx = aacFrequencyIndex (Timescale audioTrack);
             outputPath = TrimSuffix inputPath (Ext inputPath) @ outputExt;
             sampleOffsets = buildSampleOffsets audioTrack
         in if CreateFails H outputPath then (Inl ErrCreate, fs)
            else if sampleOffsets = [] then (Inl ErrNoSampleTable, fs(outputPath := None))
            else
              (case extractSamples inputFile codecType aacProfile freqIdx chans 0
                      sampleOffsets ([], False) of
                 Inl e \<Rightarrow> (Inl e, fs(outputPath := None))
               | Inr (out, hasData) \<Rightarrow>
                   if \<not> hasData then (Inl ErrNoAudioData, fs(outputPath := None))
                   else if StatFails H outputPath
                   then (Inl ErrStat, fs(outputPath := Some out))
                   else (Inr (outputPath, audioFormat), fs(outputPath := Some out))))))))"

section \<open>Sample locations and framed units, as the specification words them\<close>

text \<open>
  The sample locations of a track: the chunk table is walked against the sample table in
  order; inside a chunk the offsets accumulate the sizes of the samples before, and each
  chunk starts again at its own offset. A chunk takes its declared number of samples, or
  the samples that are left.
\<close>

fun locate :: "64 word \<Rightarrow> Sample list \<Rightarrow> sampleInfo list" where
  "locate pos [] = []"
| "locate pos (s # ss) =
     \<lparr>offset = pos, size_u32 = Size s\<rparr> # locate (pos + ucast (Size s)) ss"

fun sample_locations :: "Chunk list \<Rightarrow> Sample list \<Rightarrow> sampleInfo list" where
  "sample_locations [] samples = []"
| "sample_locations (c # cs) samples =
     locate (DataOffset c) (take (unat (SamplesPerChunk c)) samples)
     @ sample_locations cs (drop (unat (SamplesPerChunk c)) samples)"

text \<open>A sample location lies inside the input file.\<close>

definition readable :: "bytes \<Rightarrow> sampleInfo \<Rightarrow> bool" where
  "readable inputFile si =
     (0 \<le> sint (offset si)
      \<and> nat (sint (offset si)) + unat (size_u32 si) \<le> length inputFile)"

text \<open>The bytes of the input file at a sample location.\<close>

definition sample_bytes :: "bytes \<Rightarrow> sampleInfo \<Rightarrow> bytes" where
  "sample_bytes inputFile si =
     take (unat (size_u32 si)) (drop (nat (sint (offset si))) inputFile)"

text \<open>
  The framed unit of a sample: for AAC the ADTS header followed by the sample's bytes,
  otherwise the sample's bytes alone.
\<close>

definition framed_unit ::
  "audioCodecType \<Rightarrow> u8 \<Rightarrow> u8 \<Rightarrow> u8 \<Rightarrow> bytes \<Rightarrow> sampleInfo \<Rightarrow> bytes" where
  "framed_unit codecType aacProfile freqIdx chans inputFile si =
     (if codecType = audioCodecAAC
      then makeADTSHeader aacProfile freqIdx chans (ucast (size_u32 si))
           @ sample_bytes inputFile si
      else sample_bytes inputFile si)"

text \<open>The output path of \<open>videoToAudio\<close> for a codec type.\<close>

definition output_path :: "string \<Rightarrow> audioCodecType \<Rightarrow> string" where
  "output_path inputPath codecType =
     TrimSuffix inputPath (Ext inputPath)
     @ (if codecType = audioCodecMP3 then ''_temp.mp3'' else ''_temp.aac'')"

text \<open>
  The samples of a track that its chunk table covers: as many of the first samples as the
  chunks declare in total.
\<close>

definition covered_samples :: "Track \<Rightarrow> Sample list" where
  "covered_samples t =
     take (sum_list (map (unat \<circ> SamplesPerChunk) (Chunks t))) (Samples t)"

section \<open>The transcription client\<close>

text \<open>\<open>BcutASR\<close>, without its HTTP client.\<close>

record BcutASR =
  AudioPath :: string
  AudioFormat :: string
  ResourceID :: string
  DownloadURL :: string
  TaskID :: string
  Cookie :: string
  UploadID :: string
  InBossKey :: string
  Etags :: "string list"

definition API_REQ_UPLOAD :: string where
  "API_REQ_UPLOAD = ''https://member.bilibili.com/x/bcut/rubick-interface/resource/create''"

definition API_COMMIT_UPLOAD :: string where
  "API_COMMIT_UPLOAD =
     ''https://member.bilibili.com/x/bcut/rubick-interface/resource/create/complete''"

definition API_CREATE_TASK :: string where
  "API_CREATE_TASK = ''https://member.bilibili.com/x/bcut/rubick-interface/task''"

definition API_QUERY_RESULT :: string where
  "API_QUERY_RESULT = ''https://member.bilibili.com/x/bcut/rubick-interface/task/result''"

subsection \<open>The remote service\<close>

text \<open>
  The anonymous response structs of \<open>upload\<close>, \<open>createTask\<close> and \<open>pollResult\<close>, with
  their JSON field names behind a prefix. \<open>per_size\<close> is an \<open>int64\<close>, read with
  \<open>sint\<close>; the codes and the state are Go \<open>int\<close>s.
\<close>

record uploadResp =
  up_code :: int
  up_resource_id :: string
  up_upload_id :: string
  up_upload_urls :: "string list"
  up_per_size :: "64 word"
  up_download_url :: string
  up_in_boss_key :: string

record commitResult =
  cm_code :: int
  cm_download_url :: string
  cm_resource_id :: string

record taskResp =
  tk_code :: int
  tk_message :: string
  tk_task_id :: string

record resultResp =
  qr_code :: int
  qr_message :: string
  qr_state :: int
  qr_remark :: string
  qr_result :: string

text \<open>
  What the client sees of the response to a chunk \<open>PUT\<close>: the status code, the header
  lookup \<open>Header.Get\<close> (the empty string for a header that is absent) and the body.
\<close>

record httpResponse =
  StatusCode :: int
  HeaderGet :: "string \<Rightarrow> string"
  Body :: string

text \<open>
  The outcome of a \<open>POST\<close> whose response body is decoded from JSON: \<open>client.Do\<close>
  fails, reading the body fails, decoding it fails, or the decoded value. The \<open>POST\<close>s
  go to constant URLs, which \<open>http.NewRequest\<close> accepts, so the returns on its error in
  \<open>upload\<close> and \<open>createTask\<close> are never taken. The URL of a chunk \<open>PUT\<close> comes
  from the upload plan and the URL of a result query holds the task id: for these
  \<open>http.NewRequest\<close> may reject the URL, and then no request is sent. So the outcome of
  a chunk \<open>PUT\<close> is: the URL is rejected, \<open>Do\<close> fails, or the response; and a result
  query has the outcomes of a \<open>POST\<close> and the rejected URL.
\<close>

datatype 'a reply = TransportFailure | ReadFailure | DecodeFailure | Reply 'a

datatype putReply = PutBadRequest | PutTransportFailure | PutResponse httpResponse

datatype queryReply =
    QueryBadRequest
  | QueryTransportFailure
  | QueryReadFailure
  | QueryDecodeFailure
  | QueryReply resultResp

text \<open>
  The remote service as the client meets it during one run: a reply for each request.
  The chunk \<open>PUT\<close>s and the result queries are repeated, so their replies may also
  depend on the index of the chunk and on the number of the attempt. The forms are the
  \<open>url.Values\<close>, as the list of the \<open>Set\<close> calls in order.
\<close>

record remote =
  requestUpload :: "(string \<times> string) list \<Rightarrow> uploadResp reply"
  putChunk :: "nat \<Rightarrow> string \<Rightarrow> bytes \<Rightarrow> putReply"
  commitUpload :: "(string \<times> string) list \<Rightarrow> commitResult reply"
  submitTask :: "string \<Rightarrow> taskResp reply"
  queryResult :: "nat \<Rightarrow> string \<Rightarrow> queryReply"

text \<open>What a run does, in order: the trace of its calls, requests and sleeps.\<close>

datatype event =
    EvVideoToAudio string
  | EvReadFile string
  | EvPostForm string "(string \<times> string) list"
  | EvPut string bytes
  | EvPostTask string string
  | EvGet string string
  | EvSleep nat

subsection \<open>upload\<close>

text \<open>
  The bounds of chunk \<open>i\<close> in \<open>int64\<close> arithmetic:
  \<^verbatim>\<open>
  start := int64(i) * perSize
  end := start + perSize
  if end > int64(len(fileData)) { end = int64(len(fileData)) }\<close>
\<close>

definition chunkBounds :: "64 word \<Rightarrow> nat \<Rightarrow> nat \<Rightarrow> int \<times> int" where
  "chunkBounds perSize len i =
     (let start = (of_nat i :: 64 word) * perSize;
          end0 = start + perSize;
          end1 = (if sint end0 > sint (of_nat len :: 64 word) then of_nat len else end0)
      in (sint start, sint end1))"

text \<open>
  The slice expression \<open>fileData[start:end]\<close>: it panics unless
  \<open>0 \<le> start \<le> end \<le> cap(fileData)\<close>. The capacity is at least the length, and
  \<open>end\<close> as computed by \<open>chunkBounds\<close> never exceeds the length.
\<close>

definition slice :: "bytes \<Rightarrow> int \<Rightarrow> int \<Rightarrow> error + bytes" where
  "slice fileData start end1 =
     (if 0 \<le> start \<and> start \<le> end1 \<and> end1 \<le> int (length fileData)
      then Inr (take (nat end1 - nat start) (drop (nat start) fileData))
      else Inl (PanicSliceBounds start end1))"

text \<open>
  The loop over \<open>uploadResp.Data.UploadURLs\<close> with its index \<open>i\<close>; the last argument is
  \<open>asr.Etags\<close>. It returns the error that ended it, if any, the ETags and the trace.
\<close>

fun uploadChunks ::
  "remote \<Rightarrow> bytes \<Rightarrow> 64 word \<Rightarrow> nat \<Rightarrow> string list \<Rightarrow> string list
     \<Rightarrow> error option \<times> string list \<times> event list" where
  "uploadChunks R fileData perSize i [] etags = (None, etags, [])"
| "uploadChunks R fileData perSize i (uploadURL # rest) etags =
     (case chunkBounds perSize (length fileData) i of (start, end1) \<Rightarrow>
      (case slice fileData start end1 of
         Inl p \<Rightarrow> (Some p, etags, [])
       | Inr chunk \<Rightarrow>
           (case putChunk R i uploadURL chunk of
              PutBadRequest \<Rightarrow> (Some ErrChunkRequest, etags, [])
            | PutTransportFailure \<Rightarrow>
                (Some (ErrChunkTransport (i + 1)), etags, [EvPut uploadURL chunk])
            | PutResponse resp \<Rightarrow>
                if StatusCode resp \<noteq> 200 \<and> StatusCode resp \<noteq> 201
                then (Some (ErrChunkStatus (i + 1) (StatusCode resp) (Body resp)), etags,
                      [EvPut uploadURL chunk])
                else
                  (let etag = (if HeaderGet resp ''Etag'' = [] then HeaderGet resp ''ETag''
                               else HeaderGet resp ''Etag'')
                   in case uploadChunks R fileData perSize (i + 1) rest (etags @ [etag]) of
                        (r, etags', evs) \<Rightarrow> (r, etags', EvPut uploadURL chunk # evs)))))"

text \<open>
  The two forms of \<open>upload\<close>: \<open>formValues\<close> of the upload request, from the audio
  format and the length of the file, and \<open>commitValues\<close> of the commit, from the
  receiver.
\<close>

definition formValues :: "string \<Rightarrow> nat \<Rightarrow> (string \<times> string) list" where
  "formValues audioFmt len =
     [(''type'', ''2''), (''name'', ''audio.'' @ audioFmt), (''size'', Itoa len),
      (''resource_file_type'', audioFmt), (''model_id'', ''7'')]"

definition commitValues :: "BcutASR \<Rightarrow> (string \<times> string) list" where
  "commitValues asr =
     [(''in_boss_key'', InBossKey asr), (''resource_id'', ResourceID asr),
      (''etags'', Join (Etags asr) '',''), (''upload_id'', UploadID asr),
      (''model_id'', ''7'')]"

text \<open>
  \<open>upload\<close>: read the file, request the upload plan, \<open>PUT\<close> the chunks, commit.
  It returns the error, if any, the receiver as the call leaves it, and the trace.
\<close>

definition upload :: "remote \<Rightarrow> filesystem \<Rightarrow> BcutASR \<Rightarrow> error option \<times> BcutASR \<times> event list"
  where
  "upload R fs asr =
     (case fs (AudioPath asr) of
        None \<Rightarrow> (Some ErrReadFile, asr, [EvReadFile (AudioPath asr)])
      | Some fileData \<Rightarrow>
     (let audioFmt = (if AudioFormat asr = [] then ''mp3'' else AudioFormat asr);
          ev1 = [EvReadFile (AudioPath asr),
                 EvPostForm API_REQ_UPLOAD (formValues audioFmt (length fileData))]
      in case requestUpload R (formValues audioFmt (length fileData)) of
           TransportFailure \<Rightarrow> (Some ErrTransport, asr, ev1)
         | ReadFailure \<Rightarrow> (Some ErrDecode, asr, ev1)
         | DecodeFailure \<Rightarrow> (Some ErrDecode, asr, ev1)
         | Reply uploadResp \<Rightarrow>
             if up_code uploadResp \<noteq> 0
             then (Some (ErrRequestUpload (up_code uploadResp)), asr, ev1)
             else
               (let asr1 = asr\<lparr>ResourceID := up_resource_id uploadResp,
                               DownloadURL := up_download_url uploadResp,
                               UploadID := up_upload_id uploadResp,
                               InBossKey := up_in_boss_key uploadResp,
                               Etags := []\<rparr>
                in case uploadChunks R fileData (up_per_size uploadResp) 0
                          (up_upload_urls uploadResp) [] of
                     (Some err, etags, ev2) \<Rightarrow> (Some err, asr1\<lparr>Etags := etags\<rparr>, ev1 @ ev2)
                   | (None, etags, ev2) \<Rightarrow>
                       (let asr2 = asr1\<lparr>Etags := etags\<rparr>;
                            ev3 = ev1 @ ev2 @ [EvPostForm API_COMMIT_UPLOAD (commitValues asr2)]
                        in case commitUpload R (commitValues asr2) of
                             TransportFailure \<Rightarrow> (Some ErrTransport, asr2, ev3)
                           | ReadFailure \<Rightarrow> (Some ErrReadBody, asr2, ev3)
                           | DecodeFailure \<Rightarrow> (Some ErrDecode, asr2, ev3)
                           | Reply commitResult \<Rightarrow>
                               if cm_code commitResult \<noteq> 0
                               then (Some (ErrCommit (cm_code commitResult)), asr2, ev3)
                               else if cm_download_url commitResult \<noteq> []
                               then (None,
                                     asr2\<lparr>DownloadURL := cm_download_url commitResult\<rparr>,
                                     ev3)
                               else (None, asr2, ev3)))))"

subsection \<open>createTask\<close>

definition createTask :: "remote \<Rightarrow> BcutASR \<Rightarrow> error option \<times> BcutASR \<times> event list" where
  "createTask R asr =
     (let ev = [EvPostTask API_CREATE_TASK (DownloadURL asr)] in
      case submitTask R (DownloadURL asr) of
        TransportFailure \<Rightarrow> (Some ErrTransport, asr, ev)
      | ReadFailure \<Rightarrow> (Some ErrReadBody, asr, ev)
      | DecodeFailure \<Rightarrow> (Some ErrDecode, asr, ev)
      | Reply taskResp \<Rightarrow>
          if tk_code taskResp \<noteq> 0
          then (Some (ErrCreateTask (tk_code taskResp) (tk_message taskResp)), asr, ev)
          else (None, asr\<lparr>TaskID := tk_task_id taskResp\<rparr>, ev))"

subsection \<open>pollResult\<close>

text \<open>
  The remark that \<open>pollResult\<close> substitutes for an empty one, in UTF-8.
\<close>

definition generic_remark :: string where
  "generic_remark =
     [CHR 0xE6, CHR 0x9C, CHR 0xAA, CHR 0xE7, CHR 0x9F, CHR 0xA5, CHR 0xE9, CHR 0x94,
      CHR 0x99, CHR 0xE8, CHR 0xAF, CHR 0xAF, CHR 0x28, CHR 0xE5, CHR 0x8F, CHR 0xAF,
      CHR 0xE8, CHR 0x83, CHR 0xBD, CHR 0xE6, CHR 0x98, CHR 0xAF, CHR 0xE9, CHR 0x9F,
      CHR 0xB3, CHR 0xE9, CHR 0xA2, CHR 0x91, CHR 0xE6, CHR 0xA0, CHR 0xBC, CHR 0xE5,
      CHR 0xBC, CHR 0x8F, CHR 0xE4, CHR 0xB8, CHR 0x8D, CHR 0xE6, CHR 0x94, CHR 0xAF,
      CHR 0xE6, CHR 0x8C, CHR 0x81, CHR 0xE6, CHR 0x88, CHR 0x96, CHR 0xE6, CHR 0x96,
      CHR 0x87, CHR 0xE4, CHR 0xBB, CHR 0xB6, CHR 0xE6, CHR 0x8D, CHR 0x9F, CHR 0xE5,
      CHR 0x9D, CHR 0x8F, CHR 0x29]"

text \<open>
  The loop \<open>for i := 0; i < 500; i++\<close> of \<open>pollResult\<close>, from the attempt \<open>i\<close> on.
  \<open>Unmarshal\<close> stands for \<open>json.Unmarshal\<close> of the embedded result into an
  \<open>ASRResult\<close>, \<open>None\<close> when it fails. Each attempt is a \<open>GET\<close>, unless its URL
  is rejected; an attempt that neither returns nor fails is followed by
  \<open>time.Sleep(3 * time.Second)\<close>.
\<close>

function pollLoop ::
  "(string \<Rightarrow> ASRResult option) \<Rightarrow> remote \<Rightarrow> string \<Rightarrow> nat
     \<Rightarrow> (error + ASRResult) \<times> event list" where
  "pollLoop Unmarshal R taskID i =
     (if i < 500 then
        (case queryResult R i taskID of
           QueryBadRequest \<Rightarrow> (Inl ErrNewRequest, [])
         | QueryTransportFailure \<Rightarrow> (Inl ErrTransport, [EvGet API_QUERY_RESULT taskID])
         | QueryReadFailure \<Rightarrow> (Inl ErrReadBody, [EvGet API_QUERY_RESULT taskID])
         | QueryDecodeFailure \<Rightarrow> (Inl ErrDecode, [EvGet API_QUERY_RESULT taskID])
         | QueryReply resultResp \<Rightarrow>
             if qr_code resultResp \<noteq> 0
             then (Inl (ErrQuery (qr_code resultResp) (qr_message resultResp)),
                   [EvGet API_QUERY_RESULT taskID])
             else if qr_state resultResp = 4 then
               (case Unmarshal (qr_result resultResp) of
                  None \<Rightarrow> (Inl ErrResultParse, [EvGet API_QUERY_RESULT taskID])
                | Some asrResult \<Rightarrow> (Inr asrResult, [EvGet API_QUERY_RESULT taskID]))
             else if qr_state resultResp = 3 then
               (Inl (ErrASRFailed (if qr_remark resultResp = [] then generic_remark
                                   else qr_remark resultResp)),
                [EvGet API_QUERY_RESULT taskID])
             else
               (case pollLoop Unmarshal R taskID (i + 1) of
                  (r, evs) \<Rightarrow> (r, EvGet API_QUERY_RESULT taskID # EvSleep 3 # evs)))
      else (Inl ErrTimeout, []))"
  by pat_completeness auto
termination
  by (relation "measure (\<lambda>(Unmarshal, R, taskID, i). 500 - i)") auto

declare pollLoop.simps [simp del]

definition pollResult ::
  "(string \<Rightarrow> ASRResult option) \<Rightarrow> remote \<Rightarrow> BcutASR \<Rightarrow> (error + ASRResult) \<times> event list"
  where
  "pollResult Unmarshal R asr = pollLoop Unmarshal R (TaskID asr) 0"

text \<open>
  The \<open>gomedia\<close> variant of the loop differs in the failed state: it reports the remark
  as it is, also when it is empty.
\<close>

function pollLoop_gomedia ::
  "(string \<Rightarrow> ASRResult option) \<Rightarrow> remote \<Rightarrow> string \<Rightarrow> nat
     \<Rightarrow> (error + ASRResult) \<times> event list" where
  "pollLoop_gomedia Unmarshal R taskID i =
     (if i < 500 then
        (case queryResult R i taskID of
           QueryBadRequest \<Rightarrow> (Inl ErrNewRequest, [])
         | QueryTransportFailure \<Rightarrow> (Inl ErrTransport, [EvGet API_QUERY_RESULT taskID])
         | QueryReadFailure \<Rightarrow> (Inl ErrReadBody, [EvGet API_QUERY_RESULT taskID])
         | QueryDecodeFailure \<Rightarrow> (Inl ErrDecode, [EvGet API_QUERY_RESULT taskID])
         | QueryReply resultResp \<Rightarrow>
             if qr_code resultResp \<noteq> 0
             then (Inl (ErrQuery (qr_code resultResp) (qr_message resultResp)),
                   [EvGet API_QUERY_RESULT taskID])
             else if qr_state resultResp = 4 then
               (case Unmarshal (qr_result resultResp) of
                  None \<Rightarrow> (Inl ErrResultParse, [EvGet API_QUERY_RESULT taskID])
                | Some asrResult \<Rightarrow> (Inr asrResult, [EvGet API_QUERY_RESULT taskID]))
             else if qr_state resultResp = 3 then
               (Inl (ErrASRFailed (qr_remark resultResp)), [EvGet API_QUERY_RESULT taskID])
             else
               (case pollLoop_gomedia Unmarshal R taskID (i + 1) of
                  (r, evs) \<Rightarrow> (r, EvGet API_QUERY_RESULT taskID # EvSleep 3 # evs)))
      else (Inl ErrTimeout, []))"
  by pat_completeness auto
termination
  by (relation "measure (\<lambda>(Unmarshal, R, taskID, i). 500 - i)") auto

declare pollLoop_gomedia.simps [simp del]

definition pollResult_gomedia ::
  "(string \<Rightarrow> ASRResult option) \<Rightarrow> remote \<Rightarrow> BcutASR \<Rightarrow> (error + ASRResult) \<times> event list"
  where
  "pollResult_gomedia Unmarshal R asr = pollLoop_gomedia Unmarshal R (TaskID asr) 0"

subsection \<open>Run\<close>

text \<open>The map \<open>audioExts\<close> of \<open>Run\<close>; a missing key reads as \<open>false\<close>.\<close>

definition audioExts :: "string \<Rightarrow> bool option" where
  "audioExts =
     map_of [(''.mp3'', True), (''.wav'', True), (''.flac'', True), (''.m4a'', True),
             (''.ogg'', True), (''.aac'', True), (''.wma'', True)]"

definition audioExts_lookup :: "string \<Rightarrow> bool" where
  "audioExts_lookup ext = (case audioExts ext of Some b \<Rightarrow> b | None \<Rightarrow> False)"

text \<open>A panic is not wrapped by the callers: it unwinds through them.\<close>

fun is_panic :: "error \<Rightarrow> bool" where
  "is_panic (PanicSliceBounds start end1) = True"
| "is_panic e = False"

text \<open>
  Steps 1 to 4 of \<open>Run\<close>, after \<open>asr.AudioPath\<close> and \<open>asr.AudioFormat\<close> are set:
  upload, create the task, poll, convert to text.
\<close>

definition Run_steps ::
  "(string \<Rightarrow> ASRResult option) \<Rightarrow> remote \<Rightarrow> filesystem \<Rightarrow> BcutASR
     \<Rightarrow> (error + string) \<times> BcutASR \<times> event list" where
  "Run_steps Unmarshal R fs asr =
     (case upload R fs asr of
        (Some err, asr1, ev1) \<Rightarrow>
          (Inl (if is_panic err then err else ErrUpload err), asr1, ev1)
      | (None, asr1, ev1) \<Rightarrow>
     (case createTask R asr1 of
        (Some err, asr2, ev2) \<Rightarrow> (Inl (ErrTask err), asr2, ev1 @ ev2)
      | (None, asr2, ev2) \<Rightarrow>
     (case pollResult Unmarshal R asr2 of
        (Inl err, ev3) \<Rightarrow> (Inl (ErrPoll err), asr2, ev1 @ ev2 @ ev3)
      | (Inr result, ev3) \<Rightarrow> (Inr (toText result), asr2, ev1 @ ev2 @ ev3))))"

text \<open>
  \<open>Run\<close>: step 0 extracts the audio unless the lower-cased extension of the path is in
  \<open>audioExts\<close>. It returns the text or the error, the receiver and the file system as
  the call leaves them, and the trace.
\<close>

definition Run ::
  "host \<Rightarrow> (string \<Rightarrow> ASRResult option) \<Rightarrow> remote \<Rightarrow> filesystem
     \<Rightarrow> BcutASR \<Rightarrow> (error + string) \<times> BcutASR \<times> filesystem \<times> event list" where
  "Run H Unmarshal R fs asr =
     (let ext = ToLower (Ext (AudioPath asr)) in
      if \<not> audioExts_lookup ext then
        (case videoToAudio H fs (AudioPath asr) of
           (Inl err, fs1) \<Rightarrow>
             (Inl (ErrVideoToAudio err), asr, fs1, [EvVideoToAudio (AudioPath asr)])
         | (Inr (extractedPath, audioFmt), fs1) \<Rightarrow>
             (case Run_steps Unmarshal R fs1
                     (asr\<lparr>AudioFormat := audioFmt, AudioPath := extractedPath\<rparr>) of
                (r, asr1, evs) \<Rightarrow> (r, asr1, fs1, EvVideoToAudio (AudioPath asr) # evs)))
      else
        (case Run_steps Unmarshal R fs (asr\<lparr>AudioFormat := TrimPrefix ext ''.''\<rparr>) of
           (r, asr1, evs) \<Rightarrow> (r, asr1, fs, evs)))"

section \<open>Upload chunks and polling, as the specification words them\<close>

text \<open>The bytes of a file at the positions from \<open>a\<close> up to, not including, \<open>b\<close>.\<close>

definition byte_range :: "bytes \<Rightarrow> nat \<Rightarrow> nat \<Rightarrow> bytes" where
  "byte_range fileData a b = take (b - a) (drop a fileData)"

text \<open>
  Chunk \<open>i\<close> of a file for the chunk size \<open>perSize\<close>: the byte range from
  \<open>i * perSize\<close> to \<open>min ((i + 1) * perSize) n\<close>, \<open>n\<close> the length of the file.
\<close>

definition chunk :: "bytes \<Rightarrow> nat \<Rightarrow> nat \<Rightarrow> bytes" where
  "chunk fileData perSize i =
     byte_range fileData (i * perSize) (min ((i + 1) * perSize) (length fileData))"

text \<open>The ETag of a response: the header \<open>Etag\<close> or, if that is empty, \<open>ETag\<close>.\<close>

definition etag_of :: "httpResponse \<Rightarrow> string" where
  "etag_of resp =
     (if HeaderGet resp ''Etag'' = [] then HeaderGet resp ''ETag'' else HeaderGet resp ''Etag'')"




text \<open>A call of \<open>videoToAudio\<close> in the trace.\<close>

fun is_extract :: "event \<Rightarrow> bool" where
  "is_extract (EvVideoToAudio path) = True"
| "is_extract e = False"

text \<open>
  A reply to a result query that keeps the polling going: the service code is 0 and the
  state is neither 3 nor 4.
\<close>

definition continues :: "queryReply \<Rightarrow> bool" where
  "continues r =
     (case r of QueryReply q \<Rightarrow> qr_code q = 0 \<and> qr_state q \<noteq> 3 \<and> qr_state q \<noteq> 4 | _ \<Rightarrow> False)"

text \<open>\<open>m\<close> attempts that each end in the three-second sleep.\<close>

definition attempts :: "string \<Rightarrow> nat \<Rightarrow> event list" where
  "attempts taskID m = concat (replicate m [EvGet API_QUERY_RESULT taskID, EvSleep 3])"

section \<open>Example inputs\<close>

text \<open>
  A sixteen-byte input file at the path \<open>v.mp4\<close>; an AAC-LC track of three samples, the
  second of size zero, in two chunks; an MP3 track of one sample; a track whose samples
  all have size zero; and a probe that reports a given track list for that file.
\<close>

definition ex_file :: bytes where
  "ex_file = [0x10, 0x11, 0x12, 0x13, 0x14, 0x15, 0x16, 0x17,
              0x18, 0x19, 0x1A, 0x1B, 0x1C, 0x1D, 0x1E, 0x1F]"

definition ex_fs :: filesystem where
  "ex_fs = (\<lambda>p. if p = ''v.mp4'' then Some ex_file else None)"

definition ex_track_aac :: Track where
  "ex_track_aac =
     \<lparr>TrackID = 2, Timescale = 44100, Codec = CodecMP4A, Encrypted = False,
      Samples = [\<lparr>Size = 3\<rparr>, \<lparr>Size = 0\<rparr>, \<lparr>Size = 2\<rparr>],
      Chunks = [\<lparr>DataOffset = 4, SamplesPerChunk = 2\<rparr>,
                \<lparr>DataOffset = 10, SamplesPerChunk = 1\<rparr>],
      MP4A = Some \<lparr>OTI = 0x40, AudOTI = 2, ChannelCount = 2\<rparr>\<rparr>"

definition ex_track_mp3 :: Track where
  "ex_track_mp3 =
     \<lparr>TrackID = 1, Timescale = 44100, Codec = CodecMP4A, Encrypted = False,
      Samples = [\<lparr>Size = 4\<rparr>],
      Chunks = [\<lparr>DataOffset = 0, SamplesPerChunk = 1\<rparr>],
      MP4A = Some \<lparr>OTI = 0x6B, AudOTI = 0, ChannelCount = 2\<rparr>\<rparr>"

definition ex_track_silent :: Track where
  "ex_track_silent =
     \<lparr>TrackID = 3, Timescale = 48000, Codec = CodecMP4A, Encrypted = False,
      Samples = [\<lparr>Size = 0\<rparr>, \<lparr>Size = 0\<rparr>],
      Chunks = [\<lparr>DataOffset = 8, SamplesPerChunk = 2\<rparr>],
      MP4A = Some \<lparr>OTI = 0x40, AudOTI = 2, ChannelCount = 2\<rparr>\<rparr>"

definition ex_Probe :: "Track list \<Rightarrow> bytes \<Rightarrow> Track list option" where
  "ex_Probe tracks content = (if content = ex_file then Some tracks else None)"

text \<open>
  A host that probes the example file as the given tracks, and on which \<open>os.Create\<close> and
  \<open>os.Stat\<close> succeed.
\<close>

definition ex_host :: "Track list \<Rightarrow> host" where
  "ex_host tracks =
     \<lparr>Probe = ex_Probe tracks, CreateFails = (\<lambda>p. False), StatFails = (\<lambda>p. False)\<rparr>"

text \<open>
  For the transcription client: a file of 12,000,000 bytes at \<open>a.mp3\<close> and the
  sixteen-byte file again at \<open>s.wav\<close>; a receiver; an upload plan of three URLs with
  a chunk size of 5,000,000; a service that accepts every chunk and answers with the ETags
  \<open>e0\<close>, \<open>e1\<close>, ... under the header \<open>ETag\<close>, and whose task is done at the third
  query; a service that answers the second chunk with status 500; and a service whose
  plan has the chunk size 10.
\<close>

definition ex_big_file :: bytes where
  "ex_big_file = replicate 12000000 0"

definition ex_fs_audio :: filesystem where
  "ex_fs_audio =
     (\<lambda>p. if p = ''a.mp3'' then Some ex_big_file
          else if p = ''s.wav'' then Some ex_file else None)"

definition ex_asr :: BcutASR where
  "ex_asr = \<lparr>AudioPath = ''a.mp3'', AudioFormat = ''mp3'', ResourceID = [], DownloadURL = [],
             TaskID = [], Cookie = [], UploadID = [], InBossKey = [], Etags = []\<rparr>"

definition ex_plan :: uploadResp where
  "ex_plan =
     \<lparr>up_code = 0, up_resource_id = ''r1'', up_upload_id = ''u1'',
      up_upload_urls = [''https://up/0'', ''https://up/1'', ''https://up/2''],
      up_per_size = 5000000, up_download_url = ''https://dl/plan'',
      up_in_boss_key = ''k1''\<rparr>"

definition ex_put_ok :: "nat \<Rightarrow> httpResponse" where
  "ex_put_ok i =
     \<lparr>StatusCode = 200,
      HeaderGet = (\<lambda>h. if h = ''ETag'' then [CHR ''e'', digit_char i] else []),
      Body = []\<rparr>"

definition ex_result :: ASRResult where
  "ex_result =
     \<lparr>Utterances = [\<lparr>Transcript = ''a'', StartTime = 0, EndTime = 900\<rparr>,
                    \<lparr>Transcript = ''b'', StartTime = 1000, EndTime = 1900\<rparr>,
                    \<lparr>Transcript = ''c'', StartTime = 2000, EndTime = 2900\<rparr>]\<rparr>"

definition ex_Unmarshal :: "string \<Rightarrow> ASRResult option" where
  "ex_Unmarshal s = (if s = ''[a,b,c]'' then Some ex_result else None)"

definition ex_remote :: remote where
  "ex_remote =
     \<lparr>requestUpload = (\<lambda>form. Reply ex_plan),
      putChunk = (\<lambda>i url body. PutResponse (ex_put_ok i)),
      commitUpload = (\<lambda>form. Reply \<lparr>cm_code = 0, cm_download_url = ''https://dl/final'',
                                     cm_resource_id = ''r1''\<rparr>),
      submitTask = (\<lambda>resource. Reply \<lparr>tk_code = 0, tk_message = [], tk_task_id = ''t1''\<rparr>),
      queryResult = (\<lambda>i taskID. QueryReply \<lparr>qr_code = 0, qr_message = [],
                                         qr_state = (if i < 2 then 1 else 4),
                                         qr_remark = [], qr_result = ''[a,b,c]''\<rparr>)\<rparr>"


definition ex_remote_over :: remote where
  "ex_remote_over =
     ex_remote\<lparr>requestUpload := (\<lambda>form. Reply (ex_plan\<lparr>up_per_size := 10\<rparr>))\<rparr>"



text \<open>A file system that holds the sixteen-byte file under the name \<open>talk.M4A\<close>.\<close>

definition ex_fs_m4a :: filesystem where
  "ex_fs_m4a = (\<lambda>p. if p = ''talk.M4A'' then Some ex_file else None)"

text \<open>Track lists of the \<open>gomedia\<close> variant.\<close>

definition ex_gtrack_mp3 :: TrackInfo where
  "ex_gtrack_mp3 = \<lparr>Cid = MP4_CODEC_MP3, TrackId = 1\<rparr>"

definition ex_gtrack_opus :: TrackInfo where
  "ex_gtrack_opus = \<lparr>Cid = MP4_CODEC_OPUS, TrackId = 2\<rparr>"

definition ex_gtrack_aac :: TrackInfo where
  "ex_gtrack_aac = \<lparr>Cid = MP4_CODEC_AAC, TrackId = 3\<rparr>"

section \<open>Properties of the ADTS header\<close>

lemma unat_u8_take_bit: "take_bit 8 (unat (c :: u8)) = unat c"
proof -
  have "unat c < 2 ^ LENGTH(8)" by (rule unsigned_less)
  then show ?thesis by (simp add: take_bit_nat_eq_self)
qed

lemma nat_3_mask: "(3::nat) = mask 2" by (simp add: mask_eq_exp_minus_1)
lemma nat_7_mask: "(7::nat) = mask 3" by (simp add: mask_eq_exp_minus_1)
lemma nat_31_mask: "(31::nat) = mask 5" by (simp add: mask_eq_exp_minus_1)
lemma word_3_mask: "(3::'a::len word) = mask 2" by (simp add: mask_eq_exp_minus_1)
lemma word_7_mask: "(7::'a::len word) = mask 3" by (simp add: mask_eq_exp_minus_1)
lemma word_31_mask: "(31::'a::len word) = mask 5" by (simp add: mask_eq_exp_minus_1)

lemma nat_and_3: "(n::nat) AND 3 = n mod 4"
  using take_bit_eq_mask [of 2 n] by (simp add: take_bit_eq_mod mask_eq_exp_minus_1)

lemma nat_and_7: "(n::nat) AND 7 = n mod 8"
  using take_bit_eq_mask [of 3 n] by (simp add: take_bit_eq_mod mask_eq_exp_minus_1)

lemma adts_byte2:
  fixes p f c :: u8
  assumes p: "unat p \<le> 3" and f: "unat f \<le> 12"
  shows "unat (push_bit 6 p OR push_bit 2 f OR drop_bit 2 c) =
         push_bit 6 (unat p) OR push_bit 2 (unat f) OR drop_bit 2 (unat c)"
proof -
  have 1: "take_bit 8 (push_bit 6 (unat p)) = push_bit 6 (unat p)"
    using p by (simp add: take_bit_nat_eq_self push_bit_eq_mult)
  have 2: "take_bit 8 (push_bit 2 (unat f)) = push_bit 2 (unat f)"
    using f by (simp add: take_bit_nat_eq_self push_bit_eq_mult)
  show ?thesis
    by (simp add: unsigned_or_eq unsigned_push_bit_eq unsigned_drop_bit_eq 1 2
        unat_u8_take_bit)
qed

lemma adts_byte3:
  fixes c :: u8 and a :: u16
  shows "unat (push_bit 6 (c AND 0x3) OR ucast (drop_bit 11 a AND 0x3)) =
         push_bit 6 (unat c AND 3) OR (unat a div 2048) mod 4"
proof -
  have "unat (push_bit 6 (c AND 0x3) OR ucast (drop_bit 11 a AND 0x3)) =
        push_bit 6 (unat c AND 3) OR (drop_bit 11 (unat a) AND 3)"
    unfolding nat_3_mask word_3_mask
    by (rule bit_eqI) (auto simp add: bit_simps)
  then show ?thesis by (simp add: nat_and_3 drop_bit_eq_div)
qed

lemma adts_byte4:
  fixes a :: u16
  shows "unat (ucast (drop_bit 3 a) :: u8) = (unat a div 8) mod 256"
proof -
  have "unat (ucast (drop_bit 3 a) :: u8) = take_bit 8 (drop_bit 3 (unat a))"
    by (rule bit_eqI) (auto simp add: bit_simps)
  then show ?thesis by (simp add: take_bit_eq_mod drop_bit_eq_div)
qed

lemma adts_byte5:
  fixes a :: u16
  shows "unat (push_bit 5 (ucast (a AND 0x7)) OR (0x1F :: u8)) =
         push_bit 5 (unat a mod 8) OR 0x1F"
proof -
  have "unat (push_bit 5 (ucast (a AND 0x7)) OR (0x1F :: u8)) =
        push_bit 5 (unat a AND 7) OR 0x1F"
    unfolding nat_7_mask word_7_mask nat_31_mask word_31_mask
    by (rule bit_eqI) (auto simp add: bit_simps)
  then show ?thesis by (simp add: nat_and_7)
qed

lemma byte3_low2:
  fixes x y :: nat
  assumes "y < 4"
  shows "(push_bit 6 x OR y) mod 4 = y"
proof -
  have "take_bit 2 (push_bit 6 x OR y) = take_bit 2 y"
    by (rule bit_eqI) (auto simp add: bit_simps)
  with assms show ?thesis by (simp add: take_bit_eq_mod)
qed

lemma byte5_high3:
  fixes x :: nat
  assumes "x < 8"
  shows "(push_bit 5 x OR 0x1F) div 32 = x"
proof -
  have "drop_bit 5 (push_bit 5 x OR mask 5) = x"
    by (rule bit_eqI) (auto simp add: bit_simps)
  then show ?thesis by (simp add: drop_bit_eq_div nat_31_mask)
qed

lemma length_field_split:
  fixes n :: nat
  assumes "n < 8192"
  shows "(n div 2048 mod 4) * 2048 + (n div 8 mod 256) * 8 + n mod 8 = n"
proof -
  have a: "n div 2048 mod 4 = n div 2048" using assms by simp
  have b: "n mod 2048 = 8 * (n div 8 mod 256) + n mod 8"
    using mod_mult2_eq [of n 8 256] by simp
  have "n = 2048 * (n div 2048) + n mod 2048" by simp
  with a b show ?thesis by simp
qed

lemma unat_frameLen_plus_7:
  fixes s :: u16
  assumes "unat s + 7 < 2 ^ 13"
  shows "unat (s + 7) = unat s + 7"
  using assms by (simp add: unat_word_ariths)

text \<open>
  Claim C1. For every profile \<open>p\<close> in 0..3, frequency index \<open>f\<close> in 0..12, channel
  count \<open>c\<close> and sample size \<open>s\<close> with \<open>s + 7 < 2^13\<close>, the header is the seven bytes
  \<open>0xFF, 0xF1, b2, b3, b4, b5, 0xFC\<close> with
  \<open>b2 = (p<<6)|(f<<2)|(c>>2)\<close>, \<open>b3 = ((c&3)<<6) | bits 12..11 of (s+7)\<close>,
  \<open>b4 = bits 10..3 of (s+7)\<close>, \<open>b5 = (bits 2..0 of (s+7))<<5 | 0x1F\<close>, all read as
  natural numbers without truncation, and the 13-bit length field read back from the
  header is \<open>s + 7\<close>. For profile 1, frequency index 4, two channels and frame length
  100 the length field is 107. The channel configuration is 2 when the track has no
  \<open>mp4a\<close> information or reports a channel count of zero.
\<close>

theorem makeADTSHeader_layout:
  fixes p f c :: u8 and s :: u16
  assumes "unat p \<le> 3" and "unat f \<le> 12" and "unat s + 7 < 2 ^ 13"
  shows "(\<exists>b2 b3 b4 b5.
            makeADTSHeader p f c s = [0xFF, 0xF1, b2, b3, b4, b5, 0xFC]
          \<and> unat b2 = push_bit 6 (unat p) OR push_bit 2 (unat f) OR drop_bit 2 (unat c)
          \<and> unat b3 = push_bit 6 (unat c AND 3) OR ((unat s + 7) div 2 ^ 11) mod 4
          \<and> unat b4 = ((unat s + 7) div 2 ^ 3) mod 2 ^ 8
          \<and> unat b5 = push_bit 5 ((unat s + 7) mod 2 ^ 3) OR 0x1F)
       \<and> length (makeADTSHeader p f c s) = 7
       \<and> adts_frame_length (makeADTSHeader p f c s) = unat s + 7
       \<and> makeADTSHeader 1 4 2 100 ! 0 = 0xFF
       \<and> makeADTSHeader 1 4 2 100 ! 1 = 0xF1
       \<and> adts_frame_length (makeADTSHeader 1 4 2 100) = 107
       \<and> channelCount None = 2
       \<and> channelCount (Some (m\<lparr>ChannelCount := 0\<rparr>)) = 2"
proof -
  let ?n = "unat s + 7"
  have n: "unat (s + 7) = ?n" using assms(3) by (rule unat_frameLen_plus_7)
  have lt: "?n < 8192" using assms(3) by simp
  have b2: "unat (push_bit 6 p OR push_bit 2 f OR drop_bit 2 c) =
            push_bit 6 (unat p) OR push_bit 2 (unat f) OR drop_bit 2 (unat c)"
    using assms(1,2) by (rule adts_byte2)
  have b3: "unat (push_bit 6 (c AND 0x3) OR ucast (drop_bit 11 (s + 7) AND 0x3)) =
            push_bit 6 (unat c AND 3) OR (?n div 2048) mod 4"
    using adts_byte3 [of c "s + 7"] by (simp only: n)
  have b4: "unat (ucast (drop_bit 3 (s + 7)) :: u8) = (?n div 8) mod 256"
    using adts_byte4 [of "s + 7"] by (simp only: n)
  have b5: "unat (push_bit 5 (ucast ((s + 7) AND 0x7)) OR (0x1F :: u8)) =
            push_bit 5 (?n mod 8) OR 0x1F"
    using adts_byte5 [of "s + 7"] by (simp only: n)
  have bytes: "\<exists>b2 b3 b4 b5.
            makeADTSHeader p f c s = [0xFF, 0xF1, b2, b3, b4, b5, 0xFC]
          \<and> unat b2 = push_bit 6 (unat p) OR push_bit 2 (unat f) OR drop_bit 2 (unat c)
          \<and> unat b3 = push_bit 6 (unat c AND 3) OR (?n div 2 ^ 11) mod 4
          \<and> unat b4 = (?n div 2 ^ 3) mod 2 ^ 8
          \<and> unat b5 = push_bit 5 (?n mod 2 ^ 3) OR 0x1F"
    using b2 b3 b4 b5 by (simp add: makeADTSHeader_def Let_def)
  have len: "length (makeADTSHeader p f c s) = 7"
    by (simp add: makeADTSHeader_def Let_def)
  have "adts_frame_length (makeADTSHeader p f c s) =
        (?n div 2048 mod 4) * 2048 + (?n div 8 mod 256) * 8 + ?n mod 8"
    unfolding adts_frame_length_def makeADTSHeader_def Let_def
    by (simp add: b3 b4 b5 byte3_low2 byte5_high3 del: push_bit_and)
  also have "\<dots> = ?n" using lt by (rule length_field_split)
  finally have field: "adts_frame_length (makeADTSHeader p f c s) = ?n" .
  have ex0: "makeADTSHeader 1 4 2 100 ! 0 = 0xFF"
    and ex1: "makeADTSHeader 1 4 2 100 ! 1 = 0xF1"
    by (simp_all add: makeADTSHeader_def)
  have ex: "adts_frame_length (makeADTSHeader 1 4 2 100) = 107"
    by (simp add: makeADTSHeader_def adts_frame_length_def)
  have ch: "channelCount None = 2" "channelCount (Some (m\<lparr>ChannelCount := 0\<rparr>)) = 2"
    by (simp_all add: channelCount_def)
  from bytes len field ex0 ex1 ex ch show ?thesis by blast
qed

theorem makeADTSHeader_layout_witness:
  "unat (1 :: u8) \<le> 3 \<and> unat (4 :: u8) \<le> 12 \<and> unat (100 :: u16) + 7 < 2 ^ 13
   \<and> makeADTSHeader 1 4 2 100 = [0xFF, 0xF1, 0x50, 0x80, 0x0D, 0x7F, 0xFC]
   \<and> adts_frame_length (makeADTSHeader 1 4 2 100) = unat (100 :: u16) + 7"
proof -
  have h: "unat (1 :: u8) \<le> 3" "unat (4 :: u8) \<le> 12" "unat (100 :: u16) + 7 < 2 ^ 13"
    by simp_all
  have "adts_frame_length (makeADTSHeader 1 4 2 100) = unat (100 :: u16) + 7"
    using makeADTSHeader_layout [OF h, of 2] by blast
  moreover have "makeADTSHeader 1 4 2 100 = [0xFF, 0xF1, 0x50, 0x80, 0x0D, 0x7F, 0xFC]"
    by (simp add: makeADTSHeader_def)
  ultimately show ?thesis using h by blast
qed

section \<open>Properties of the transcript text\<close>



lemma toText_gomedia_concat:
  "toText_gomedia result = concat (map Transcript (Utterances result))"
proof -
  have "toText_loop_gomedia us b = b @ concat (map Transcript us)" for us b
    by (induction us arbitrary: b) simp_all
  then show ?thesis by (simp add: toText_gomedia_def)
qed

section \<open>Properties of the codec classification\<close>

text \<open>
  Claim C3, as the code has it. For a track whose OTI is \<open>0x40\<close> (MPEG-4 audio): the audio
  object types 1, 2, 3, 4 give family AAC with ADTS profiles 0, 1, 2, 3; the types 5
  (SBR) and 29 (PS) give the unsupported family; every other type gives family AAC with
  profile 1. For any other OTI the audio object type is not read: the classification
  stays the same whatever it is.
\<close>

theorem detectAudioCodec_aot:
  "(OTI info = 0x40 \<longrightarrow>
      (AudOTI info = 1 \<longrightarrow>
         detectAudioCodec (Some info) = (audioCodecAAC, 0, ''aac (MPEG-4 Main)''))
    \<and> (AudOTI info = 2 \<longrightarrow>
         detectAudioCodec (Some info) = (audioCodecAAC, 1, ''aac (MPEG-4 LC)''))
    \<and> (AudOTI info = 3 \<longrightarrow>
         detectAudioCodec (Some info) = (audioCodecAAC, 2, ''aac (MPEG-4 SSR)''))
    \<and> (AudOTI info = 4 \<longrightarrow>
         detectAudioCodec (Some info) = (audioCodecAAC, 3, ''aac (MPEG-4 LTP)''))
    \<and> (AudOTI info = 5 \<or> AudOTI info = 29 \<longrightarrow>
         fst (detectAudioCodec (Some info)) = audioCodecHEAAC)
    \<and> (AudOTI info \<notin> {1, 2, 3, 4, 5, 29} \<longrightarrow>
         fst (detectAudioCodec (Some info)) = audioCodecAAC
         \<and> fst (snd (detectAudioCodec (Some info))) = 1))
   \<and> (OTI info \<noteq> 0x40 \<longrightarrow>
         detectAudioCodec (Some (info\<lparr>AudOTI := a\<rparr>)) = detectAudioCodec (Some info))"
  by (simp add: detectAudioCodec_def Let_def)

theorem detectAudioCodec_aot_witness:
  "OTI \<lparr>OTI = 0x40, AudOTI = 5, ChannelCount = 2\<rparr> = 0x40
   \<and> AudOTI \<lparr>OTI = 0x40, AudOTI = 5, ChannelCount = 2\<rparr> = 5
   \<and> fst (detectAudioCodec (Some \<lparr>OTI = 0x40, AudOTI = 5, ChannelCount = 2\<rparr>))
       = audioCodecHEAAC
   \<and> OTI \<lparr>OTI = 0x6B, AudOTI = 0, ChannelCount = 2\<rparr> \<noteq> 0x40
   \<and> detectAudioCodec (Some (\<lparr>OTI = 0x6B, AudOTI = 0, ChannelCount = 2\<rparr>\<lparr>AudOTI := 29\<rparr>))
       = detectAudioCodec (Some \<lparr>OTI = 0x6B, AudOTI = 0, ChannelCount = 2\<rparr>)"
  using detectAudioCodec_aot [of "\<lparr>OTI = 0x40, AudOTI = 5, ChannelCount = 2\<rparr>" 0]
    detectAudioCodec_aot [of "\<lparr>OTI = 0x6B, AudOTI = 0, ChannelCount = 2\<rparr>" 29]
  by simp

text \<open>
  The claim as written fails where the OTI is not \<open>0x40\<close>: with OTI \<open>0x67\<close> (MPEG-2 AAC
  LC) the audio object types 5 and 29 classify as AAC with profile 1, not as
  unsupported, and the audio object type 1 gives profile 1, not 0.
\<close>

theorem detectAudioCodec_aot_counterexample:
  "detectAudioCodec (Some \<lparr>OTI = 0x67, AudOTI = 5, ChannelCount = 2\<rparr>)
     = (audioCodecAAC, 1, ''aac (MPEG-2 LC)'')
   \<and> detectAudioCodec (Some \<lparr>OTI = 0x67, AudOTI = 29, ChannelCount = 2\<rparr>)
     = (audioCodecAAC, 1, ''aac (MPEG-2 LC)'')
   \<and> detectAudioCodec (Some \<lparr>OTI = 0x67, AudOTI = 1, ChannelCount = 2\<rparr>)
     = (audioCodecAAC, 1, ''aac (MPEG-2 LC)'')"
  by (simp add: detectAudioCodec_def)

section \<open>Properties of the audio extraction\<close>

lemma length_locate: "length (locate pos ss) = length ss"
  by (induction ss arbitrary: pos) simp_all

lemma sizes_locate: "map size_u32 (locate pos ss) = map Size ss"
  by (induction ss arbitrary: pos) simp_all

lemma chunk_loop_locate:
  "chunk_loop k pos samples (tbl, idx) =
     (tbl @ locate pos (take k (drop idx samples)),
      idx + length (take k (drop idx samples)))"
proof (induction k arbitrary: pos tbl idx)
  case 0
  then show ?case by simp
next
  case (Suc k)
  show ?case
  proof (cases "idx < length samples")
    case True
    then have d: "drop idx samples = samples ! idx # drop (Suc idx) samples"
      by (simp add: Cons_nth_drop_Suc)
    show ?thesis using True Suc.IH by (simp add: d Let_def)
  next
    case False
    then show ?thesis by simp
  qed
qed

lemma chunks_loop_locations:
  "chunks_loop chunks samples (tbl, idx) =
     (tbl @ sample_locations chunks (drop idx samples),
      idx + length (sample_locations chunks (drop idx samples)))"
proof (induction chunks arbitrary: tbl idx)
  case Nil
  then show ?case by simp
next
  case (Cons c cs)
  let ?k = "unat (SamplesPerChunk c)"
  let ?n = "length (take ?k (drop idx samples))"
  let ?L = "locate (DataOffset c) (take ?k (drop idx samples))"
  have dr: "drop (idx + ?n) samples = drop ?k (drop idx samples)"
    by (cases "?k \<le> length samples - idx") (simp_all add: min_def add.commute)
  have "chunks_loop (c # cs) samples (tbl, idx) =
        chunks_loop cs samples (tbl @ ?L, idx + ?n)"
    by (simp only: chunks_loop.simps chunk_loop_locate)
  also have "\<dots> = ((tbl @ ?L) @ sample_locations cs (drop (idx + ?n) samples),
                    (idx + ?n) + length (sample_locations cs (drop (idx + ?n) samples)))"
    by (rule Cons.IH)
  also have "\<dots> = (tbl @ sample_locations (c # cs) (drop idx samples),
                    idx + length (sample_locations (c # cs) (drop idx samples)))"
    unfolding dr by (simp add: length_locate)
  finally show ?case .
qed

lemma buildSampleOffsets_locations:
  "buildSampleOffsets t = sample_locations (Chunks t) (Samples t)"
  by (simp add: buildSampleOffsets_def chunks_loop_locations)

lemma sizes_sample_locations:
  "map size_u32 (sample_locations chunks samples) =
   map Size (take (sum_list (map (unat \<circ> SamplesPerChunk) chunks)) samples)"
proof (induction chunks arbitrary: samples)
  case Nil
  then show ?case by simp
next
  case (Cons c cs)
  then show ?case by (simp add: sizes_locate take_add)
qed


lemma ReadFull_readable:
  assumes "readable inputFile si"
  shows "\<not> sint (offset si) < 0"
    and "ReadFull inputFile (nat (sint (offset si))) (unat (size_u32 si)) =
         Some (sample_bytes inputFile si)"
  using assms by (simp_all add: readable_def ReadFull_def sample_bytes_def)

lemma length_sample_bytes:
  assumes "readable inputFile si"
  shows "length (sample_bytes inputFile si) = unat (size_u32 si)"
  using assms by (auto simp add: readable_def sample_bytes_def)

lemma length_makeADTSHeader: "length (makeADTSHeader p f c s) = 7"
  by (simp add: makeADTSHeader_def Let_def)

lemma extractSamples_readable:
  assumes "\<forall>si \<in> set tbl. size_u32 si \<noteq> 0 \<longrightarrow> readable inputFile si"
  shows "extractSamples inputFile ct p f c idx tbl (out, h) =
         Inr (out @ concat (map (framed_unit ct p f c inputFile)
                              (filter (\<lambda>si. size_u32 si \<noteq> 0) tbl)),
              h \<or> (\<exists>si \<in> set tbl. size_u32 si \<noteq> 0))"
  using assms
proof (induction tbl arbitrary: idx out h)
  case Nil
  then show ?case by simp
next
  case (Cons si rest)
  then have rest: "\<forall>si \<in> set rest. size_u32 si \<noteq> 0 \<longrightarrow> readable inputFile si"
    by simp
  show ?case
  proof (cases "size_u32 si = 0")
    case True
    then show ?thesis using Cons.IH [OF rest] by simp
  next
    case False
    with Cons.prems have r: "readable inputFile si" by simp
    show ?thesis
      using False Cons.IH [OF rest]
      by (simp add: ReadFull_readable [OF r] framed_unit_def)
  qed
qed

lemma extractSamples_append:
  "extractSamples inputFile ct p f c idx (xs @ ys) st =
     (case extractSamples inputFile ct p f c idx xs st of
        Inl e \<Rightarrow> Inl e
      | Inr st' \<Rightarrow> extractSamples inputFile ct p f c (idx + length xs) ys st')"
proof (induction xs arbitrary: idx st)
  case Nil
  then show ?case by simp
next
  case (Cons si rest)
  obtain out h where st: "st = (out, h)" by (cases st)
  show ?case
  proof (cases "size_u32 si = 0")
    case True
    then show ?thesis unfolding st by (simp add: Cons.IH cong: sum.case_cong)
  next
    case False
    show ?thesis
    proof (cases "sint (offset si) < 0")
      case True
      with False show ?thesis unfolding st by simp
    next
      case nonneg: False
      show ?thesis
      proof (cases "ReadFull inputFile (nat (sint (offset si))) (unat (size_u32 si))")
        case None
        with False nonneg show ?thesis unfolding st by simp
      next
        case (Some buf)
        with False nonneg show ?thesis
          unfolding st
          by (simp add: Cons.IH Let_def split del: if_split cong: sum.case_cong)
      qed
    qed
  qed
qed

lemma length_framed_units:
  assumes "\<forall>si \<in> set tbl. size_u32 si \<noteq> 0 \<longrightarrow> readable inputFile si"
  shows "length (concat (map (framed_unit ct p f c inputFile)
                            (filter (\<lambda>si. size_u32 si \<noteq> 0) tbl))) =
         sum_list (map (unat \<circ> size_u32) tbl)
         + (if ct = audioCodecAAC then 7 * length (filter (\<lambda>si. size_u32 si \<noteq> 0) tbl) else 0)"
  using assms
proof (induction tbl)
  case Nil
  then show ?case by simp
next
  case (Cons si rest)
  then show ?case
    by (cases "size_u32 si = 0")
       (simp_all add: framed_unit_def length_sample_bytes length_makeADTSHeader)
qed

lemma detectAudioCodec_family:
  "fst (detectAudioCodec m) \<noteq> audioCodecUnknown"
  by (simp add: detectAudioCodec_def Let_def split: option.splits)


lemma videoToAudio_selected:
  assumes "fs inputPath = Some inputFile"
    and "Probe H inputFile = Some tracks"
    and "findAudioTrack tracks = Some t"
    and "detectAudioCodec (MP4A t) = (codecType, aacProfile, codecName)"
    and "codecType \<noteq> audioCodecHEAAC"
    and "\<not> CreateFails H (output_path inputPath codecType)"
  shows "videoToAudio H fs inputPath =
     (if sample_locations (Chunks t) (Samples t) = []
      then (Inl ErrNoSampleTable, fs(output_path inputPath codecType := None))
      else
        (case extractSamples inputFile codecType aacProfile
                (aacFrequencyIndex (Timescale t)) (channelCount (MP4A t)) 0
                (sample_locations (Chunks t) (Samples t)) ([], False) of
           Inl e \<Rightarrow> (Inl e, fs(output_path inputPath codecType := None))
         | Inr (out, hasData) \<Rightarrow>
             if \<not> hasData
             then (Inl ErrNoAudioData, fs(output_path inputPath codecType := None))
             else if StatFails H (output_path inputPath codecType)
             then (Inl ErrStat, fs(output_path inputPath codecType := Some out))
             else (Inr (output_path inputPath codecType,
                        if codecType = audioCodecMP3 then ''mp3'' else ''aac''),
                   fs(output_path inputPath codecType := Some out))))"
  using assms
  by (cases codecType)
     (simp_all add: videoToAudio_def output_path_def buildSampleOffsets_locations Let_def
        cong: sum.case_cong prod.case_cong if_cong)

text \<open>
  When \<open>os.Create\<close> fails nothing is written. When \<open>os.Stat\<close> fails after a complete
  extraction the call returns its error and the output file stays.
\<close>

lemma videoToAudio_create_fails:
  assumes "fs inputPath = Some inputFile"
    and "Probe H inputFile = Some tracks"
    and "findAudioTrack tracks = Some t"
    and "detectAudioCodec (MP4A t) = (codecType, aacProfile, codecName)"
    and "codecType \<noteq> audioCodecHEAAC"
    and "CreateFails H (output_path inputPath codecType)"
  shows "videoToAudio H fs inputPath = (Inl ErrCreate, fs)"
  using assms
  by (cases codecType) (simp_all add: videoToAudio_def output_path_def Let_def)

lemma videoToAudio_stat_fails:
  assumes "fs inputPath = Some inputFile"
    and "Probe H inputFile = Some tracks"
    and "findAudioTrack tracks = Some t"
    and "detectAudioCodec (MP4A t) = (codecType, aacProfile, codecName)"
    and "codecType \<noteq> audioCodecHEAAC"
    and "\<not> CreateFails H (output_path inputPath codecType)"
    and "StatFails H (output_path inputPath codecType)"
    and "extractSamples inputFile codecType aacProfile
           (aacFrequencyIndex (Timescale t)) (channelCount (MP4A t)) 0
           (sample_locations (Chunks t) (Samples t)) ([], False) = Inr (out, True)"
    and "sample_locations (Chunks t) (Samples t) \<noteq> []"
  shows "videoToAudio H fs inputPath =
           (Inl ErrStat, fs(output_path inputPath codecType := Some out))"
  using assms(7-9)
  by (simp add: videoToAudio_selected [where fs = fs and H = H, OF assms(1-6)])

lemma sizes_nonzero_filter:
  assumes "map size_u32 tbl = map Size ss"
  shows "length (filter (\<lambda>si. size_u32 si \<noteq> 0) tbl) = length (filter (\<lambda>s. Size s \<noteq> 0) ss)"
    and "sum_list (map (unat \<circ> size_u32) tbl) = sum_list (map (unat \<circ> Size) ss)"
proof -
  have "length (filter (\<lambda>si. size_u32 si \<noteq> 0) tbl) = length (filter (\<lambda>x. x \<noteq> 0) (map size_u32 tbl))"
    by (simp add: filter_map comp_def)
  also have "\<dots> = length (filter (\<lambda>x. x \<noteq> 0) (map Size ss))" using assms by simp
  also have "\<dots> = length (filter (\<lambda>s. Size s \<noteq> 0) ss)" by (simp add: filter_map comp_def)
  finally show "length (filter (\<lambda>si. size_u32 si \<noteq> 0) tbl) = length (filter (\<lambda>s. Size s \<noteq> 0) ss)" .
  have "map (unat \<circ> size_u32) tbl = map unat (map size_u32 tbl)" by simp
  also have "\<dots> = map unat (map Size ss)" using assms by simp
  also have "\<dots> = map (unat \<circ> Size) ss" by simp
  finally show "sum_list (map (unat \<circ> size_u32) tbl) = sum_list (map (unat \<circ> Size) ss)" by simp
qed

lemma sizes_covered:
  "map size_u32 (sample_locations (Chunks t) (Samples t)) = map Size (covered_samples t)"
  by (simp add: sizes_sample_locations covered_samples_def)

lemma extractSamples_all_zero:
  assumes "\<forall>si \<in> set tbl. size_u32 si = 0"
  shows "extractSamples inputFile ct p f c idx tbl st = Inr st"
  using assms
proof (induction tbl arbitrary: idx)
  case Nil
  then show ?case by simp
next
  case (Cons si rest)
  then show ?case by (cases st) simp
qed

lemma ex_host_ok:
  "\<not> CreateFails (ex_host tracks) p" "\<not> StatFails (ex_host tracks) p"
  by (simp_all add: ex_host_def)

lemma ex_Ext: "Ext ''v.mp4'' = ''.mp4''"
  by (simp add: Ext_def IsPathSeparator_def)

lemma ex_output_path:
  "output_path ''v.mp4'' audioCodecAAC = ''v_temp.aac''"
  "output_path ''v.mp4'' audioCodecMP3 = ''v_temp.mp3''"
  by (simp_all add: output_path_def ex_Ext TrimSuffix_def)

lemma ex_freq: "aacFrequencyIndex 44100 = 4" "aacFrequencyIndex 48000 = 3"
  by (simp_all add: aacFrequencyIndex_def rates_def)

lemma ex_codec:
  "detectAudioCodec (Some \<lparr>OTI = 0x40, AudOTI = 2, ChannelCount = 2\<rparr>)
     = (audioCodecAAC, 1, ''aac (MPEG-4 LC)'')"
  "detectAudioCodec (Some \<lparr>OTI = 0x6B, AudOTI = 0, ChannelCount = 2\<rparr>)
     = (audioCodecMP3, 0, ''mp3 (MPEG-1 Layer III)'')"
  by (simp_all add: detectAudioCodec_def)

lemma ex_table_aac:
  "sample_locations (Chunks ex_track_aac) (Samples ex_track_aac) =
     [\<lparr>offset = 4, size_u32 = 3\<rparr>, \<lparr>offset = 7, size_u32 = 0\<rparr>,
      \<lparr>offset = 10, size_u32 = 2\<rparr>]"
  by (simp add: ex_track_aac_def)

lemma ex_table_mp3:
  "sample_locations (Chunks ex_track_mp3) (Samples ex_track_mp3) =
     [\<lparr>offset = 0, size_u32 = 4\<rparr>]"
  by (simp add: ex_track_mp3_def)


text \<open>
  Claim C2, as the code has it. Take a selected track of a supported codec whose
  non-empty sample locations lie inside the input file and which has a non-empty sample
  among the samples its chunk table covers, on a host where \<open>os.Create\<close> and
  \<open>os.Stat\<close> of the output path succeed. The sample locations are those of the walk of
  the chunk table against the sample table (offsets accumulating inside a chunk, starting
  again at each chunk's offset) and list the covered samples in order. Extraction
  succeeds, and the output file is the concatenation, in that order, of one framed unit
  for each covered sample of non-zero size: the sample's bytes as they stand in the input,
  after a seven-byte ADTS header when the track is AAC. A sample of size zero contributes
  no unit and no header. So for AAC the output length is the sum of the covered sample
  sizes plus 7 times the number of non-empty covered samples, and for MP3 the sum of the
  covered sample sizes. When the chunk table covers all \<open>N\<close> samples and none is
  empty, these are \<open>N\<close> units.
\<close>

theorem videoToAudio_framed_units:
  assumes "fs inputPath = Some inputFile"
    and "Probe H inputFile = Some tracks"
    and "findAudioTrack tracks = Some t"
    and "detectAudioCodec (MP4A t) = (codecType, aacProfile, codecName)"
    and "codecType \<noteq> audioCodecHEAAC"
    and "\<not> CreateFails H (output_path inputPath codecType)"
    and "\<not> StatFails H (output_path inputPath codecType)"
    and "\<forall>si \<in> set (sample_locations (Chunks t) (Samples t)).
           size_u32 si \<noteq> 0 \<longrightarrow> readable inputFile si"
    and "\<exists>s \<in> set (covered_samples t). Size s \<noteq> 0"
  shows "\<exists>out.
      videoToAudio H fs inputPath =
        (Inr (output_path inputPath codecType,
              if codecType = audioCodecMP3 then ''mp3'' else ''aac''),
         fs(output_path inputPath codecType := Some out))
    \<and> out = concat (map (framed_unit codecType aacProfile
                             (aacFrequencyIndex (Timescale t)) (channelCount (MP4A t))
                             inputFile)
                     (filter (\<lambda>si. size_u32 si \<noteq> 0)
                        (sample_locations (Chunks t) (Samples t))))
    \<and> map size_u32 (sample_locations (Chunks t) (Samples t)) = map Size (covered_samples t)
    \<and> length (filter (\<lambda>si. size_u32 si \<noteq> 0) (sample_locations (Chunks t) (Samples t)))
        = length (filter (\<lambda>s. Size s \<noteq> 0) (covered_samples t))
    \<and> (codecType = audioCodecAAC \<longrightarrow>
          length out = sum_list (map (unat \<circ> Size) (covered_samples t))
                       + 7 * length (filter (\<lambda>s. Size s \<noteq> 0) (covered_samples t)))
    \<and> (codecType = audioCodecMP3 \<longrightarrow>
          length out = sum_list (map (unat \<circ> Size) (covered_samples t)))
    \<and> (length (Samples t) \<le> sum_list (map (unat \<circ> SamplesPerChunk) (Chunks t))
         \<and> (\<forall>s \<in> set (Samples t). Size s \<noteq> 0) \<longrightarrow>
          covered_samples t = Samples t
          \<and> length (filter (\<lambda>s. Size s \<noteq> 0) (covered_samples t)) = length (Samples t))"
proof -
  let ?tbl = "sample_locations (Chunks t) (Samples t)"
  let ?units = "concat (map (framed_unit codecType aacProfile
                             (aacFrequencyIndex (Timescale t)) (channelCount (MP4A t))
                             inputFile)
                     (filter (\<lambda>si. size_u32 si \<noteq> 0) ?tbl))"
  have sz: "map size_u32 ?tbl = map Size (covered_samples t)" by (rule sizes_covered)
  have "set (map size_u32 ?tbl) = set (map Size (covered_samples t))" using sz by simp
  with assms(9) have nz: "\<exists>si \<in> set ?tbl. size_u32 si \<noteq> 0"
    by (metis (no_types, lifting) image_iff list.set_map)
  then have ne: "?tbl \<noteq> []" by auto
  have run: "videoToAudio H fs inputPath =
        (Inr (output_path inputPath codecType,
              if codecType = audioCodecMP3 then ''mp3'' else ''aac''),
         fs(output_path inputPath codecType := Some ?units))"
    using ne nz assms(7)
    by (simp add: videoToAudio_selected [where fs = fs and H = H, OF assms(1-6)]
        extractSamples_readable [OF assms(8)])
  have len: "length ?units =
         sum_list (map (unat \<circ> size_u32) ?tbl)
         + (if codecType = audioCodecAAC
            then 7 * length (filter (\<lambda>si. size_u32 si \<noteq> 0) ?tbl) else 0)"
    using assms(8) by (rule length_framed_units)
  note cnt = sizes_nonzero_filter [OF sz]
  have aac: "codecType = audioCodecAAC \<longrightarrow>
          length ?units = sum_list (map (unat \<circ> Size) (covered_samples t))
                       + 7 * length (filter (\<lambda>s. Size s \<noteq> 0) (covered_samples t))"
  proof
    assume c: "codecType = audioCodecAAC"
    from len have "length ?units = sum_list (map (unat \<circ> size_u32) ?tbl)
         + 7 * length (filter (\<lambda>si. size_u32 si \<noteq> 0) ?tbl)"
      unfolding if_P [OF c] .
    then show "length ?units = sum_list (map (unat \<circ> Size) (covered_samples t))
                       + 7 * length (filter (\<lambda>s. Size s \<noteq> 0) (covered_samples t))"
      by (simp only: cnt)
  qed
  have mp3: "codecType = audioCodecMP3 \<longrightarrow>
          length ?units = sum_list (map (unat \<circ> Size) (covered_samples t))"
  proof
    assume "codecType = audioCodecMP3"
    then have c: "\<not> codecType = audioCodecAAC" by simp
    from len have "length ?units = sum_list (map (unat \<circ> size_u32) ?tbl) + 0"
      unfolding if_not_P [OF c] .
    then show "length ?units = sum_list (map (unat \<circ> Size) (covered_samples t))"
      by (simp only: cnt add_0_right)
  qed
  have full: "length (Samples t) \<le> sum_list (map (unat \<circ> SamplesPerChunk) (Chunks t))
         \<and> (\<forall>s \<in> set (Samples t). Size s \<noteq> 0) \<longrightarrow>
          covered_samples t = Samples t
          \<and> length (filter (\<lambda>s. Size s \<noteq> 0) (covered_samples t)) = length (Samples t)"
    by (simp add: covered_samples_def)
  from run sz cnt(1) aac mp3 full show ?thesis by blast
qed


text \<open>
  The theorem at the example AAC track: two non-empty samples of 3 and 2 bytes give an
  output of \<open>5 + 7 * 2\<close> bytes.
\<close>

theorem videoToAudio_framed_units_witness:
  "ex_fs ''v.mp4'' = Some ex_file
   \<and> Probe (ex_host [ex_track_aac]) ex_file = Some [ex_track_aac]
   \<and> findAudioTrack [ex_track_aac] = Some ex_track_aac
   \<and> detectAudioCodec (MP4A ex_track_aac) = (audioCodecAAC, 1, ''aac (MPEG-4 LC)'')
   \<and> (\<exists>out. videoToAudio (ex_host [ex_track_aac]) ex_fs ''v.mp4'' =
               (Inr (''v_temp.aac'', ''aac''), ex_fs(''v_temp.aac'' := Some out))
            \<and> length out = 5 + 7 * 2)"
proof -
  have 1: "ex_fs ''v.mp4'' = Some ex_file" by (simp add: ex_fs_def)
  have 2: "Probe (ex_host [ex_track_aac]) ex_file = Some [ex_track_aac]"
    by (simp add: ex_host_def ex_Probe_def)
  have 3: "findAudioTrack [ex_track_aac] = Some ex_track_aac"
    by (simp add: ex_track_aac_def)
  have 4: "detectAudioCodec (MP4A ex_track_aac) = (audioCodecAAC, 1, ''aac (MPEG-4 LC)'')"
    by (simp add: ex_track_aac_def ex_codec)
  have 5: "audioCodecAAC \<noteq> audioCodecHEAAC" by simp
  have 6: "\<forall>si \<in> set (sample_locations (Chunks ex_track_aac) (Samples ex_track_aac)).
           size_u32 si \<noteq> 0 \<longrightarrow> readable ex_file si"
    unfolding ex_table_aac by (simp add: readable_def ex_file_def)
  have cov: "covered_samples ex_track_aac = [\<lparr>Size = 3\<rparr>, \<lparr>Size = 0\<rparr>, \<lparr>Size = 2\<rparr>]"
    by (simp add: covered_samples_def ex_track_aac_def)
  have 7: "\<exists>s \<in> set (covered_samples ex_track_aac). Size s \<noteq> 0"
    unfolding cov by simp
  from videoToAudio_framed_units [where fs = ex_fs and H = "ex_host [ex_track_aac]",
      OF 1 2 3 4 5 ex_host_ok 6 7]
  have "\<exists>out. videoToAudio (ex_host [ex_track_aac]) ex_fs ''v.mp4'' =
               (Inr (''v_temp.aac'', ''aac''), ex_fs(''v_temp.aac'' := Some out))
            \<and> length out = 5 + 7 * 2"
    unfolding cov ex_output_path by auto
  with 1 2 3 4 show ?thesis by blast
qed


text \<open>
  The claim as written fails on a track with an empty sample: the example AAC track has
  \<open>N = 3\<close> samples of sizes 3, 0, 2, and the output holds two framed units, 19 bytes,
  not three units and \<open>5 + 7 * 3 = 26\<close> bytes.
\<close>

theorem videoToAudio_framed_units_counterexample:
  "videoToAudio (ex_host [ex_track_aac]) ex_fs ''v.mp4'' =
     (Inr (''v_temp.aac'', ''aac''),
      ex_fs(''v_temp.aac'' :=
        Some [0xFF, 0xF1, 0x50, 0x80, 0x01, 0x5F, 0xFC, 0x14, 0x15, 0x16,
              0xFF, 0xF1, 0x50, 0x80, 0x01, 0x3F, 0xFC, 0x1A, 0x1B]))
   \<and> length (Samples ex_track_aac) = 3
   \<and> sum_list (map (unat \<circ> Size) (Samples ex_track_aac)) + 7 * length (Samples ex_track_aac)
       = 26"
proof -
  have 1: "ex_fs ''v.mp4'' = Some ex_file" by (simp add: ex_fs_def)
  have 2: "Probe (ex_host [ex_track_aac]) ex_file = Some [ex_track_aac]"
    by (simp add: ex_host_def ex_Probe_def)
  have 3: "findAudioTrack [ex_track_aac] = Some ex_track_aac"
    by (simp add: ex_track_aac_def)
  have 4: "detectAudioCodec (MP4A ex_track_aac) = (audioCodecAAC, 1, ''aac (MPEG-4 LC)'')"
    by (simp add: ex_track_aac_def ex_codec)
  have 5: "audioCodecAAC \<noteq> audioCodecHEAAC" by simp
  have t: "Timescale ex_track_aac = 44100" "MP4A ex_track_aac = Some \<lparr>OTI = 0x40, AudOTI = 2, ChannelCount = 2\<rparr>"
    by (simp_all add: ex_track_aac_def)
  have run: "videoToAudio (ex_host [ex_track_aac]) ex_fs ''v.mp4'' =
     (Inr (''v_temp.aac'', ''aac''),
      ex_fs(''v_temp.aac'' :=
        Some [0xFF, 0xF1, 0x50, 0x80, 0x01, 0x5F, 0xFC, 0x14, 0x15, 0x16,
              0xFF, 0xF1, 0x50, 0x80, 0x01, 0x3F, 0xFC, 0x1A, 0x1B]))"
    unfolding videoToAudio_selected [where fs = ex_fs and H = "ex_host [ex_track_aac]",
        OF 1 2 3 4 5 ex_host_ok(1)] ex_table_aac ex_output_path t ex_freq
    by (simp add: ReadFull_def ex_file_def channelCount_def makeADTSHeader_def ex_host_ok)
  have "length (Samples ex_track_aac) = 3"
    and "sum_list (map (unat \<circ> Size) (Samples ex_track_aac)) + 7 * length (Samples ex_track_aac)
       = 26"
    by (simp_all add: ex_track_aac_def)
  with run show ?thesis by blast
qed


text \<open>
  Claim C8. For a selected track of a supported codec, the output file created: when
  all its samples have size zero, extraction fails and the output file is removed; the error is the one for no
  extracted audio data, or, when the chunk table covers no sample at all, the one for an
  empty sample table. A sample location of size zero in the table is passed over: the
  loop goes on with the locations after it, with the output and \<open>hasData\<close> unchanged.
  And when the non-empty sample locations lie inside the input file and there is one
  (and \<open>os.Stat\<close> of the output succeeds),
  extraction succeeds and writes the framed units of exactly the non-empty samples.
\<close>

theorem videoToAudio_zero_size:
  assumes "fs inputPath = Some inputFile"
    and "Probe H inputFile = Some tracks"
    and "findAudioTrack tracks = Some t"
    and "detectAudioCodec (MP4A t) = (codecType, aacProfile, codecName)"
    and "codecType \<noteq> audioCodecHEAAC"
    and "\<not> CreateFails H (output_path inputPath codecType)"
  shows "((\<forall>s \<in> set (Samples t). Size s = 0) \<longrightarrow>
            videoToAudio H fs inputPath =
              (Inl (if covered_samples t = [] then ErrNoSampleTable else ErrNoAudioData),
               fs(output_path inputPath codecType := None)))
       \<and> (size_u32 z = 0 \<longrightarrow>
            extractSamples inputFile ct p f c idx (pre @ z # post) st =
              (case extractSamples inputFile ct p f c idx pre st of
                 Inl e \<Rightarrow> Inl e
               | Inr st' \<Rightarrow> extractSamples inputFile ct p f c (idx + length pre + 1) post st'))
       \<and> ((\<forall>si \<in> set (sample_locations (Chunks t) (Samples t)).
               size_u32 si \<noteq> 0 \<longrightarrow> readable inputFile si)
            \<and> (\<exists>s \<in> set (covered_samples t). Size s \<noteq> 0)
            \<and> \<not> StatFails H (output_path inputPath codecType) \<longrightarrow>
            videoToAudio H fs inputPath =
              (Inr (output_path inputPath codecType,
                    if codecType = audioCodecMP3 then ''mp3'' else ''aac''),
               fs(output_path inputPath codecType :=
                    Some (concat (map (framed_unit codecType aacProfile
                                         (aacFrequencyIndex (Timescale t))
                                         (channelCount (MP4A t)) inputFile)
                                    (filter (\<lambda>si. size_u32 si \<noteq> 0)
                                       (sample_locations (Chunks t) (Samples t))))))))"
proof (intro conjI impI)
  let ?tbl = "sample_locations (Chunks t) (Samples t)"
  note sel = videoToAudio_selected [where fs = fs and H = H, OF assms]
  have sz: "map size_u32 ?tbl = map Size (covered_samples t)" by (rule sizes_covered)
  {
    assume zero: "\<forall>s \<in> set (Samples t). Size s = 0"
    have "set (covered_samples t) \<subseteq> set (Samples t)"
      unfolding covered_samples_def by (rule set_take_subset)
    with zero have "\<forall>x \<in> set (map Size (covered_samples t)). x = 0" by auto
    with sz have "\<forall>x \<in> set (map size_u32 ?tbl). x = 0" by simp
    then have z: "\<forall>si \<in> set ?tbl. size_u32 si = 0" by simp
    have e: "?tbl = [] \<longleftrightarrow> covered_samples t = []"
      using sz by (metis map_is_Nil_conv)
    show "videoToAudio H fs inputPath =
              (Inl (if covered_samples t = [] then ErrNoSampleTable else ErrNoAudioData),
               fs(output_path inputPath codecType := None))"
      unfolding sel by (simp add: extractSamples_all_zero [OF z] e)
  }
  {
    assume "size_u32 z = 0"
    then have "extractSamples inputFile ct p f c (idx + length pre) (z # post) st' =
               extractSamples inputFile ct p f c (idx + length pre + 1) post st'" for st'
      by (cases st') simp
    then show "extractSamples inputFile ct p f c idx (pre @ z # post) st =
              (case extractSamples inputFile ct p f c idx pre st of
                 Inl e \<Rightarrow> Inl e
               | Inr st' \<Rightarrow> extractSamples inputFile ct p f c (idx + length pre + 1) post st')"
      by (simp add: extractSamples_append cong: sum.case_cong)
  }
  {
    assume a: "(\<forall>si \<in> set ?tbl. size_u32 si \<noteq> 0 \<longrightarrow> readable inputFile si)
            \<and> (\<exists>s \<in> set (covered_samples t). Size s \<noteq> 0)
            \<and> \<not> StatFails H (output_path inputPath codecType)"
    then have st: "\<not> StatFails H (output_path inputPath codecType)" by simp
    from a have r: "\<forall>si \<in> set ?tbl. size_u32 si \<noteq> 0 \<longrightarrow> readable inputFile si" by simp
    have "set (map size_u32 ?tbl) = set (map Size (covered_samples t))" using sz by simp
    with a have nz: "\<exists>si \<in> set ?tbl. size_u32 si \<noteq> 0"
      by (metis (no_types, lifting) image_iff list.set_map)
    then have ne: "?tbl \<noteq> []" by auto
    show "videoToAudio H fs inputPath =
              (Inr (output_path inputPath codecType,
                    if codecType = audioCodecMP3 then ''mp3'' else ''aac''),
               fs(output_path inputPath codecType :=
                    Some (concat (map (framed_unit codecType aacProfile
                                         (aacFrequencyIndex (Timescale t))
                                         (channelCount (MP4A t)) inputFile)
                                    (filter (\<lambda>si. size_u32 si \<noteq> 0) ?tbl)))))"
      using ne nz st unfolding sel by (simp add: extractSamples_readable [OF r])
  }
qed

text \<open>The theorem at the example track whose two samples are empty.\<close>

theorem videoToAudio_zero_size_witness:
  "ex_fs ''v.mp4'' = Some ex_file
   \<and> Probe (ex_host [ex_track_silent]) ex_file = Some [ex_track_silent]
   \<and> findAudioTrack [ex_track_silent] = Some ex_track_silent
   \<and> map Size (Samples ex_track_silent) = [0, 0]
   \<and> videoToAudio (ex_host [ex_track_silent]) ex_fs ''v.mp4'' =
       (Inl ErrNoAudioData, ex_fs(''v_temp.aac'' := None))"
proof -
  have 1: "ex_fs ''v.mp4'' = Some ex_file" by (simp add: ex_fs_def)
  have 2: "Probe (ex_host [ex_track_silent]) ex_file = Some [ex_track_silent]"
    by (simp add: ex_host_def ex_Probe_def)
  have 3: "findAudioTrack [ex_track_silent] = Some ex_track_silent"
    by (simp add: ex_track_silent_def)
  have 4: "detectAudioCodec (MP4A ex_track_silent) = (audioCodecAAC, 1, ''aac (MPEG-4 LC)'')"
    by (simp add: ex_track_silent_def ex_codec)
  have 5: "audioCodecAAC \<noteq> audioCodecHEAAC" by simp
  have 6: "\<forall>s \<in> set (Samples ex_track_silent). Size s = 0"
    by (simp add: ex_track_silent_def)
  have 7: "covered_samples ex_track_silent \<noteq> []"
    by (simp add: covered_samples_def ex_track_silent_def)
  from videoToAudio_zero_size [where fs = ex_fs and H = "ex_host [ex_track_silent]",
      OF 1 2 3 4 5 ex_host_ok(1)] 6 7
  have "videoToAudio (ex_host [ex_track_silent]) ex_fs ''v.mp4'' =
       (Inl ErrNoAudioData, ex_fs(''v_temp.aac'' := None))"
    by (simp add: ex_output_path)
  moreover have "map Size (Samples ex_track_silent) = [0, 0]"
    by (simp add: ex_track_silent_def)
  ultimately show ?thesis using 1 2 3 by blast
qed



section \<open>Properties of the track selection\<close>

lemma findAudioTrack_find:
  "findAudioTrack tracks = List.find (\<lambda>t. Codec t = CodecMP4A) tracks"
  by (induction tracks) simp_all

lemma gomedia_loop_aac:
  assumes "List.find (\<lambda>t. Cid t = MP4_CODEC_AAC) ts = Some t"
  shows "findAudioTrack_gomedia_loop ts cur = Some t"
  using assms by (induction ts arbitrary: cur) (auto split: if_splits)

lemma find_snoc:
  "List.find P (xs @ [x]) =
     (case List.find P xs of Some y \<Rightarrow> Some y | None \<Rightarrow> if P x then Some x else None)"
  by (induction xs) simp_all

lemma gomedia_loop_no_aac:
  assumes "\<forall>t \<in> set ts. Cid t \<noteq> MP4_CODEC_AAC"
  shows "findAudioTrack_gomedia_loop ts cur =
         (case List.find (\<lambda>t. Cid t = MP4_CODEC_MP3 \<or> Cid t = MP4_CODEC_OPUS) (rev ts) of
            Some t \<Rightarrow> Some t
          | None \<Rightarrow> cur)"
  using assms
proof (induction ts arbitrary: cur)
  case Nil
  then show ?case by simp
next
  case (Cons t ts)
  then have "Cid t \<noteq> MP4_CODEC_AAC" and rest: "\<forall>t \<in> set ts. Cid t \<noteq> MP4_CODEC_AAC"
    by simp_all
  then show ?case
    using Cons.IH [OF rest] by (simp add: find_snoc split: option.splits)
qed

text \<open>
  Claim C4, as the code has it. In a track list with at least one \<open>mp4a\<close> track the
  pipeline selects the first \<open>mp4a\<close> track in scan order, whatever its coding family;
  AAC has no precedence over an earlier MP3 track. The \<open>gomedia\<close> variant selects the
  first AAC track when one exists; when none exists and there is an MP3 or Opus track it
  selects the last of those, the first one met scanning from the end.
\<close>

theorem findAudioTrack_first_mp4a:
  "((\<exists>t \<in> set tracks. Codec t = CodecMP4A) \<longrightarrow>
      (\<exists>i < length tracks.
          findAudioTrack tracks = Some (tracks ! i)
        \<and> Codec (tracks ! i) = CodecMP4A
        \<and> (\<forall>j < i. Codec (tracks ! j) \<noteq> CodecMP4A)))
   \<and> ((\<exists>t \<in> set gtracks. Cid t = MP4_CODEC_AAC) \<longrightarrow>
      (\<exists>i < length gtracks.
          findAudioTrack_gomedia gtracks = Some (gtracks ! i)
        \<and> Cid (gtracks ! i) = MP4_CODEC_AAC
        \<and> (\<forall>j < i. Cid (gtracks ! j) \<noteq> MP4_CODEC_AAC)))
   \<and> ((\<forall>t \<in> set gtracks. Cid t \<noteq> MP4_CODEC_AAC)
        \<and> (\<exists>t \<in> set gtracks. Cid t = MP4_CODEC_MP3 \<or> Cid t = MP4_CODEC_OPUS) \<longrightarrow>
      (\<exists>t. findAudioTrack_gomedia gtracks = Some t
        \<and> List.find (\<lambda>t. Cid t = MP4_CODEC_MP3 \<or> Cid t = MP4_CODEC_OPUS) (rev gtracks)
            = Some t))"
proof (intro conjI impI)
  assume "\<exists>t \<in> set tracks. Codec t = CodecMP4A"
  then obtain t where "List.find (\<lambda>t. Codec t = CodecMP4A) tracks = Some t"
    by (cases "List.find (\<lambda>t. Codec t = CodecMP4A) tracks") (auto simp add: find_None_iff)
  then obtain i where "i < length tracks" "Codec (tracks ! i) = CodecMP4A"
    "t = tracks ! i" "\<forall>j < i. Codec (tracks ! j) \<noteq> CodecMP4A"
    unfolding find_Some_iff by blast
  with \<open>List.find (\<lambda>t. Codec t = CodecMP4A) tracks = Some t\<close>
  show "\<exists>i < length tracks.
          findAudioTrack tracks = Some (tracks ! i)
        \<and> Codec (tracks ! i) = CodecMP4A
        \<and> (\<forall>j < i. Codec (tracks ! j) \<noteq> CodecMP4A)"
    by (auto simp add: findAudioTrack_find)
next
  assume "\<exists>t \<in> set gtracks. Cid t = MP4_CODEC_AAC"
  then obtain t where f: "List.find (\<lambda>t. Cid t = MP4_CODEC_AAC) gtracks = Some t"
    by (cases "List.find (\<lambda>t. Cid t = MP4_CODEC_AAC) gtracks") (auto simp add: find_None_iff)
  then obtain i where "i < length gtracks" "Cid (gtracks ! i) = MP4_CODEC_AAC"
    "t = gtracks ! i" "\<forall>j < i. Cid (gtracks ! j) \<noteq> MP4_CODEC_AAC"
    unfolding find_Some_iff by blast
  with gomedia_loop_aac [OF f, of None]
  show "\<exists>i < length gtracks.
          findAudioTrack_gomedia gtracks = Some (gtracks ! i)
        \<and> Cid (gtracks ! i) = MP4_CODEC_AAC
        \<and> (\<forall>j < i. Cid (gtracks ! j) \<noteq> MP4_CODEC_AAC)"
    by (auto simp add: findAudioTrack_gomedia_def)
next
  assume a: "(\<forall>t \<in> set gtracks. Cid t \<noteq> MP4_CODEC_AAC)
        \<and> (\<exists>t \<in> set gtracks. Cid t = MP4_CODEC_MP3 \<or> Cid t = MP4_CODEC_OPUS)"
  then obtain t where
    "List.find (\<lambda>t. Cid t = MP4_CODEC_MP3 \<or> Cid t = MP4_CODEC_OPUS) (rev gtracks) = Some t"
    by (cases "List.find (\<lambda>t. Cid t = MP4_CODEC_MP3 \<or> Cid t = MP4_CODEC_OPUS) (rev gtracks)")
       (auto simp add: find_None_iff)
  moreover from a have "\<forall>t \<in> set gtracks. Cid t \<noteq> MP4_CODEC_AAC" by simp
  ultimately show "\<exists>t. findAudioTrack_gomedia gtracks = Some t
        \<and> List.find (\<lambda>t. Cid t = MP4_CODEC_MP3 \<or> Cid t = MP4_CODEC_OPUS) (rev gtracks)
            = Some t"
    by (simp add: findAudioTrack_gomedia_def gomedia_loop_no_aac)
qed

text \<open>
  The theorem at track lists with an MP3 track before an AAC track, and at a \<open>gomedia\<close>
  track list with an MP3 and an Opus track.
\<close>

theorem findAudioTrack_first_mp4a_witness:
  "(\<exists>t \<in> set [ex_track_mp3, ex_track_aac]. Codec t = CodecMP4A)
   \<and> (\<exists>i < length [ex_track_mp3, ex_track_aac].
          findAudioTrack [ex_track_mp3, ex_track_aac] = Some ([ex_track_mp3, ex_track_aac] ! i)
        \<and> Codec ([ex_track_mp3, ex_track_aac] ! i) = CodecMP4A
        \<and> (\<forall>j < i. Codec ([ex_track_mp3, ex_track_aac] ! j) \<noteq> CodecMP4A))
   \<and> (\<exists>t \<in> set [ex_gtrack_mp3, ex_gtrack_aac]. Cid t = MP4_CODEC_AAC)
   \<and> (\<exists>i < length [ex_gtrack_mp3, ex_gtrack_aac].
          findAudioTrack_gomedia [ex_gtrack_mp3, ex_gtrack_aac]
            = Some ([ex_gtrack_mp3, ex_gtrack_aac] ! i)
        \<and> Cid ([ex_gtrack_mp3, ex_gtrack_aac] ! i) = MP4_CODEC_AAC
        \<and> (\<forall>j < i. Cid ([ex_gtrack_mp3, ex_gtrack_aac] ! j) \<noteq> MP4_CODEC_AAC))
   \<and> (\<exists>t. findAudioTrack_gomedia [ex_gtrack_mp3, ex_gtrack_opus] = Some t
        \<and> List.find (\<lambda>t. Cid t = MP4_CODEC_MP3 \<or> Cid t = MP4_CODEC_OPUS)
              (rev [ex_gtrack_mp3, ex_gtrack_opus]) = Some t)"
proof -
  have 1: "\<exists>t \<in> set [ex_track_mp3, ex_track_aac]. Codec t = CodecMP4A"
    by (simp add: ex_track_mp3_def)
  have 2: "\<exists>t \<in> set [ex_gtrack_mp3, ex_gtrack_aac]. Cid t = MP4_CODEC_AAC"
    by (simp add: ex_gtrack_aac_def)
  have 3: "(\<forall>t \<in> set [ex_gtrack_mp3, ex_gtrack_opus]. Cid t \<noteq> MP4_CODEC_AAC)
        \<and> (\<exists>t \<in> set [ex_gtrack_mp3, ex_gtrack_opus].
              Cid t = MP4_CODEC_MP3 \<or> Cid t = MP4_CODEC_OPUS)"
    by (simp add: ex_gtrack_mp3_def ex_gtrack_opus_def)
  from findAudioTrack_first_mp4a [of "[ex_track_mp3, ex_track_aac]" "[ex_gtrack_mp3, ex_gtrack_aac]"]
    findAudioTrack_first_mp4a [of "[]" "[ex_gtrack_mp3, ex_gtrack_opus]"] 1 2 3
  show ?thesis by blast
qed

text \<open>
  The claim as written fails when an MP3 track precedes an AAC track: the pipeline
  selects the MP3 track (track 1) although an AAC track (track 2) exists, and writes an
  MP3 file. In the \<open>gomedia\<close> variant, with an MP3 track before an Opus track and no
  AAC track, the Opus track is selected, the last and not the first.
\<close>

theorem findAudioTrack_first_mp4a_counterexample:
  "videoToAudio (ex_host [ex_track_mp3, ex_track_aac]) ex_fs ''v.mp4'' =
     (Inr (''v_temp.mp3'', ''mp3''),
      ex_fs(''v_temp.mp3'' := Some [0x10, 0x11, 0x12, 0x13]))
   \<and> findAudioTrack [ex_track_mp3, ex_track_aac] = Some ex_track_mp3
   \<and> TrackID ex_track_mp3 = 1
   \<and> fst (detectAudioCodec (MP4A ex_track_mp3)) = audioCodecMP3
   \<and> TrackID ex_track_aac = 2
   \<and> fst (detectAudioCodec (MP4A ex_track_aac)) = audioCodecAAC
   \<and> findAudioTrack_gomedia [ex_gtrack_mp3, ex_gtrack_opus] = Some ex_gtrack_opus"
proof -
  have 1: "ex_fs ''v.mp4'' = Some ex_file" by (simp add: ex_fs_def)
  have 2: "Probe (ex_host [ex_track_mp3, ex_track_aac]) ex_file = Some [ex_track_mp3, ex_track_aac]"
    by (simp add: ex_host_def ex_Probe_def)
  have 3: "findAudioTrack [ex_track_mp3, ex_track_aac] = Some ex_track_mp3"
    by (simp add: ex_track_mp3_def)
  have 4: "detectAudioCodec (MP4A ex_track_mp3) = (audioCodecMP3, 0, ''mp3 (MPEG-1 Layer III)'')"
    by (simp add: ex_track_mp3_def ex_codec)
  have 5: "audioCodecMP3 \<noteq> audioCodecHEAAC" by simp
  have run: "videoToAudio (ex_host [ex_track_mp3, ex_track_aac]) ex_fs ''v.mp4'' =
     (Inr (''v_temp.mp3'', ''mp3''),
      ex_fs(''v_temp.mp3'' := Some [0x10, 0x11, 0x12, 0x13]))"
    unfolding videoToAudio_selected [where fs = ex_fs
        and H = "ex_host [ex_track_mp3, ex_track_aac]", OF 1 2 3 4 5 ex_host_ok(1)]
      ex_table_mp3 ex_output_path
    by (simp add: ReadFull_def ex_file_def ex_host_ok)
  have ids: "TrackID ex_track_mp3 = 1" "TrackID ex_track_aac = 2"
    by (simp_all add: ex_track_mp3_def ex_track_aac_def)
  have aac: "fst (detectAudioCodec (MP4A ex_track_aac)) = audioCodecAAC"
    by (simp add: ex_track_aac_def ex_codec)
  have g: "findAudioTrack_gomedia [ex_gtrack_mp3, ex_gtrack_opus] = Some ex_gtrack_opus"
    by (simp add: findAudioTrack_gomedia_def ex_gtrack_mp3_def ex_gtrack_opus_def)
  from run 3 4 ids aac g show ?thesis by simp
qed


section \<open>Properties of the upload\<close>

lemma sint_word_of_int_64:
  fixes x :: int
  assumes "- (2 ^ 63) \<le> x" and "x < 2 ^ 63"
  shows "sint (word_of_int x :: 64 word) = x"
  using assms by (simp add: signed_of_int signed_take_bit_int_eq_self)

lemma chunk_start_word:
  "(of_nat i :: 64 word) * perSize = word_of_int (int i * sint perSize)"
  by simp

lemma chunk_end_word:
  "(of_nat i :: 64 word) * perSize + perSize = word_of_int (int i * sint perSize + sint perSize)"
  by simp

lemma chunkBounds_no_overflow:
  assumes P: "0 \<le> sint perSize"
    and e1: "int i * sint perSize + sint perSize < 2 ^ 63"
    and n: "n < 2 ^ 63"
  shows "chunkBounds perSize n i =
         (int i * sint perSize, min (int i * sint perSize + sint perSize) (int n))"
proof -
  let ?P = "sint perSize"
  have n': "int n < 2 ^ 63" using n by (metis of_nat_less_iff of_nat_numeral of_nat_power)
  have s0: "0 \<le> int i * ?P" using P by simp
  have s1: "int i * ?P < 2 ^ 63" using e1 P by simp
  have e0: "0 \<le> int i * ?P + ?P" using s0 P by simp
  have start: "sint ((of_nat i :: 64 word) * perSize) = int i * ?P"
    unfolding chunk_start_word using s0 s1 by (intro sint_word_of_int_64) simp_all
  have end0: "sint ((of_nat i :: 64 word) * perSize + perSize) = int i * ?P + ?P"
    unfolding chunk_end_word using e0 e1 by (intro sint_word_of_int_64) simp_all
  have len: "sint (of_nat n :: 64 word) = int n"
  proof -
    have "(of_nat n :: 64 word) = word_of_int (int n)" by simp
    then show ?thesis using n' sint_word_of_int_64 [of "int n"] by simp
  qed
  show ?thesis
    unfolding chunkBounds_def Let_def
    by (simp only: start end0 len) (auto simp add: min_def start end0 len)
qed

lemma chunk_end_in_range:
  assumes P: "0 \<le> sint (perSize :: 64 word)"
    and le: "int i * sint perSize \<le> int n"
    and n: "n < 2 ^ 62"
  shows "int i * sint perSize + sint perSize < 2 ^ 63"
proof -
  let ?P = "sint perSize"
  have Pub: "?P < 2 ^ 63" using sint_lt [of perSize] by simp
  have n': "int n < 2 ^ 62" using n by (metis of_nat_less_iff of_nat_numeral of_nat_power)
  show ?thesis
  proof (cases i)
    case 0
    then show ?thesis using Pub by simp
  next
    case (Suc j)
    have "?P \<le> int i * ?P" using P Suc by (simp add: algebra_simps mult_nonneg_nonneg)
    then have "int i * ?P + ?P \<le> 2 * int n" using le by simp
    then show ?thesis using n' by simp
  qed
qed

lemma chunkBounds_exact:
  assumes P: "0 \<le> sint perSize"
    and le: "int i * sint perSize \<le> int n"
    and n: "n < 2 ^ 62"
  shows "chunkBounds perSize n i =
         (int i * sint perSize, min (int i * sint perSize + sint perSize) (int n))"
proof -
  have "n < 2 ^ 63" using n by (simp add: less_trans [OF n])
  with chunk_end_in_range [OF P le n] P show ?thesis
    by (intro chunkBounds_no_overflow)
qed

lemma slice_chunk:
  assumes P: "0 \<le> sint perSize"
    and le: "int i * sint perSize \<le> int (length fileData)"
  shows "slice fileData (int i * sint perSize)
           (min (int i * sint perSize + sint perSize) (int (length fileData))) =
         Inr (chunk fileData (nat (sint perSize)) i)"
proof -
  let ?P = "sint perSize"
  let ?p = "nat ?P"
  have p: "int ?p = ?P" using P by simp
  have s: "nat (int i * ?P) = i * ?p" using P by (simp add: nat_mult_distrib)
  have e: "nat (min (int i * ?P + ?P) (int (length fileData))) =
           min ((i + 1) * ?p) (length fileData)"
  proof -
    have "int i * ?P + ?P = int ((i + 1) * ?p)" using p by (simp add: algebra_simps)
    then have "min (int i * ?P + ?P) (int (length fileData)) =
               int (min ((i + 1) * ?p) (length fileData))"
      by (simp only: of_nat_min)
    then show ?thesis by (simp only: nat_int)
  qed
  have ok: "0 \<le> int i * ?P \<and> int i * ?P \<le> min (int i * ?P + ?P) (int (length fileData))
        \<and> min (int i * ?P + ?P) (int (length fileData)) \<le> int (length fileData)"
    using P le by simp
  show ?thesis
    unfolding slice_def chunk_def byte_range_def using ok by (simp only: s e if_True simp_thms)
qed


lemma uploadChunks_all:
  assumes P: "0 \<le> sint perSize"
    and n: "length fileData < 2 ^ 63"
    and nov: "\<forall>j < length urls. int (i0 + j) * sint perSize + sint perSize < 2 ^ 63"
    and le: "\<forall>j < length urls. int (i0 + j) * sint perSize \<le> int (length fileData)"
    and ok: "\<forall>j < length urls.
               putChunk R (i0 + j) (urls ! j) (chunk fileData (nat (sint perSize)) (i0 + j))
                 = PutResponse (resps (i0 + j))
             \<and> (StatusCode (resps (i0 + j)) = 200 \<or> StatusCode (resps (i0 + j)) = 201)"
  shows "uploadChunks R fileData perSize i0 urls etags =
         (None,
          etags @ map (\<lambda>j. etag_of (resps (i0 + j))) [0..<length urls],
          map (\<lambda>j. EvPut (urls ! j) (chunk fileData (nat (sint perSize)) (i0 + j)))
              [0..<length urls])"
  using nov le ok
proof (induction urls arbitrary: i0 etags)
  case Nil
  then show ?case by simp
next
  case (Cons u rest)
  have nov0: "int i0 * sint perSize + sint perSize < 2 ^ 63"
    using Cons.prems(1) by force
  have le0: "int i0 * sint perSize \<le> int (length fileData)"
    using Cons.prems(2) by force
  have ok0: "putChunk R i0 u (chunk fileData (nat (sint perSize)) i0) = PutResponse (resps i0)"
    "StatusCode (resps i0) = 200 \<or> StatusCode (resps i0) = 201"
    using Cons.prems(3) by force+
  have nov': "\<forall>j < length rest. int ((i0 + 1) + j) * sint perSize + sint perSize < 2 ^ 63"
  proof (intro allI impI)
    fix j assume "j < length rest"
    then have "Suc j < length (u # rest)" by simp
    with Cons.prems(1) have "int (i0 + Suc j) * sint perSize + sint perSize < 2 ^ 63"
      by blast
    then show "int ((i0 + 1) + j) * sint perSize + sint perSize < 2 ^ 63" by simp
  qed
  have le': "\<forall>j < length rest. int ((i0 + 1) + j) * sint perSize \<le> int (length fileData)"
  proof (intro allI impI)
    fix j assume "j < length rest"
    then have "Suc j < length (u # rest)" by simp
    with Cons.prems(2) have "int (i0 + Suc j) * sint perSize \<le> int (length fileData)"
      by blast
    then show "int ((i0 + 1) + j) * sint perSize \<le> int (length fileData)" by simp
  qed
  have ok': "\<forall>j < length rest.
               putChunk R ((i0 + 1) + j) (rest ! j)
                 (chunk fileData (nat (sint perSize)) ((i0 + 1) + j))
                 = PutResponse (resps ((i0 + 1) + j))
             \<and> (StatusCode (resps ((i0 + 1) + j)) = 200
                  \<or> StatusCode (resps ((i0 + 1) + j)) = 201)"
  proof (intro allI impI)
    fix j assume "j < length rest"
    then have "Suc j < length (u # rest)" by simp
    with Cons.prems(3) have "putChunk R (i0 + Suc j) ((u # rest) ! Suc j)
                 (chunk fileData (nat (sint perSize)) (i0 + Suc j))
                 = PutResponse (resps (i0 + Suc j))
             \<and> (StatusCode (resps (i0 + Suc j)) = 200
                  \<or> StatusCode (resps (i0 + Suc j)) = 201)"
      by blast
    then show "putChunk R ((i0 + 1) + j) (rest ! j)
                 (chunk fileData (nat (sint perSize)) ((i0 + 1) + j))
                 = PutResponse (resps ((i0 + 1) + j))
             \<and> (StatusCode (resps ((i0 + 1) + j)) = 200
                  \<or> StatusCode (resps ((i0 + 1) + j)) = 201)"
      by simp
  qed
  have IH: "uploadChunks R fileData perSize (Suc i0) rest e =
         (None,
          e @ map (\<lambda>j. etag_of (resps (Suc (i0 + j)))) [0..<length rest],
          map (\<lambda>j. EvPut (rest ! j) (chunk fileData (nat (sint perSize)) (Suc (i0 + j))))
              [0..<length rest])" for e
    using Cons.IH [OF nov' le' ok', of e] by simp
  have shift: "[0..<length (u # rest)] = 0 # map Suc [0..<length rest]"
    by (simp add: upt_conv_Cons map_Suc_upt del: upt_Suc)
  show ?case
    unfolding shift
    using ok0
    by (simp add: chunkBounds_no_overflow [OF P nov0 n] slice_chunk [OF P le0] IH
        etag_of_def [symmetric] comp_def del: upt_Suc)
qed

lemma uploadChunks_append:
  "uploadChunks R fileData perSize i0 (xs @ ys) etags =
     (case uploadChunks R fileData perSize i0 xs etags of
        (Some e, etags', evs) \<Rightarrow> (Some e, etags', evs)
      | (None, etags', evs) \<Rightarrow>
          (case uploadChunks R fileData perSize (i0 + length xs) ys etags' of
             (r, etags'', evs') \<Rightarrow> (r, etags'', evs @ evs')))"
proof (induction xs arbitrary: i0 etags)
  case Nil
  then show ?case by (simp split: prod.splits)
next
  case (Cons u rest)
  show ?case
    by (simp add: Cons.IH Let_def
        split: prod.splits sum.splits putReply.splits option.splits)
qed

lemma slice_panic:
  assumes "int (length fileData) < start"
  shows "slice fileData start (min end0 (int (length fileData))) =
         Inl (PanicSliceBounds start (min end0 (int (length fileData))))"
  using assms by (simp add: slice_def)





lemma commitValues_DownloadURL:
  "commitValues (asr\<lparr>DownloadURL := u\<rparr>) = commitValues asr"
  by (simp add: commitValues_def)

lemma upload_chunk_error:
  assumes fd: "fs (AudioPath asr) = Some fileData"
    and plan: "requestUpload R
                 (formValues (if AudioFormat asr = [] then ''mp3'' else AudioFormat asr)
                    (length fileData)) = Reply plan"
    and code: "up_code plan = 0"
    and chunks: "uploadChunks R fileData (up_per_size plan) 0 (up_upload_urls plan) [] =
                   (Some err, etags, evs)"
  shows "upload R fs asr =
           (Some err,
            asr\<lparr>ResourceID := up_resource_id plan, DownloadURL := up_download_url plan,
                UploadID := up_upload_id plan, InBossKey := up_in_boss_key plan,
                Etags := etags\<rparr>,
            [EvReadFile (AudioPath asr),
             EvPostForm API_REQ_UPLOAD
               (formValues (if AudioFormat asr = [] then ''mp3'' else AudioFormat asr)
                  (length fileData))] @ evs)"
  unfolding upload_def by (simp add: fd plan code chunks Let_def)










lemma uploadChunks_panic_at:
  assumes P: "0 \<le> sint perSize"
    and nov: "int i * sint perSize + sint perSize < 2 ^ 63"
    and n: "length fileData < 2 ^ 63"
    and i: "i < length urls"
    and gt: "int (length fileData) < int i * sint perSize"
    and le: "\<forall>j < i. int j * sint perSize \<le> int (length fileData)"
    and ok: "\<forall>j < i. putChunk R j (urls ! j) (chunk fileData (nat (sint perSize)) j)
                       = PutResponse (resps j)
                   \<and> (StatusCode (resps j) = 200 \<or> StatusCode (resps j) = 201)"
  shows "uploadChunks R fileData perSize 0 urls [] =
           (Some (PanicSliceBounds (int i * sint perSize) (int (length fileData))),
            map (\<lambda>j. etag_of (resps j)) [0..<i],
            map (\<lambda>j. EvPut (urls ! j) (chunk fileData (nat (sint perSize)) j)) [0..<i])"
proof -
  let ?P = "sint perSize"
  have split: "urls = take i urls @ (urls ! i # drop (Suc i) urls)"
    using i by (simp add: Cons_nth_drop_Suc)
  have len: "length (take i urls) = i" using i by simp
  have nov': "\<forall>j < length (take i urls). int (0 + j) * ?P + ?P < 2 ^ 63"
  proof (intro allI impI)
    fix j assume "j < length (take i urls)"
    then have "j < i" by simp
    then have "int j * ?P \<le> int i * ?P" using P by (simp add: mult_right_mono)
    with nov show "int (0 + j) * ?P + ?P < 2 ^ 63" by simp
  qed
  have le': "\<forall>j < length (take i urls). int (0 + j) * ?P \<le> int (length fileData)"
    using le by simp
  have ok': "\<forall>j < length (take i urls).
               putChunk R (0 + j) (take i urls ! j) (chunk fileData (nat ?P) (0 + j))
                 = PutResponse (resps (0 + j))
             \<and> (StatusCode (resps (0 + j)) = 200 \<or> StatusCode (resps (0 + j)) = 201)"
    using ok by simp
  have mi: "min (length urls) i = i" using i by simp
  have "uploadChunks R fileData perSize 0 (take i urls) [] =
         (None, map (\<lambda>j. etag_of (resps j)) [0..<i],
          map (\<lambda>j. EvPut (take i urls ! j) (chunk fileData (nat ?P) j)) [0..<i])"
    using uploadChunks_all [where ?i0.0 = 0 and etags = "[]" and resps = resps
        and urls = "take i urls", OF P n nov' le' ok']
    by (simp add: mi)
  moreover have "map (\<lambda>j. EvPut (take i urls ! j) (chunk fileData (nat ?P) j)) [0..<i] =
                 map (\<lambda>j. EvPut (urls ! j) (chunk fileData (nat ?P) j)) [0..<i]"
    by (rule map_cong) simp_all
  ultimately have first: "uploadChunks R fileData perSize 0 (take i urls) [] =
         (None, map (\<lambda>j. etag_of (resps j)) [0..<i],
          map (\<lambda>j. EvPut (urls ! j) (chunk fileData (nat ?P) j)) [0..<i])"
    by simp
  have bounds: "chunkBounds perSize (length fileData) i = (int i * ?P, int (length fileData))"
    using chunkBounds_no_overflow [OF P nov n] gt P by (simp add: min_def)
  have panic: "slice fileData (int i * ?P) (int (length fileData)) =
               Inl (PanicSliceBounds (int i * ?P) (int (length fileData)))"
    using gt by (simp add: slice_def)
  have second: "uploadChunks R fileData perSize i (urls ! i # drop (Suc i) urls) e =
                (Some (PanicSliceBounds (int i * ?P) (int (length fileData))), e, [])" for e
    by (simp add: bounds panic)
  have "uploadChunks R fileData perSize 0 (take i urls @ (urls ! i # drop (Suc i) urls)) [] =
        (case uploadChunks R fileData perSize (0 + length (take i urls))
                (urls ! i # drop (Suc i) urls) (map (\<lambda>j. etag_of (resps j)) [0..<i]) of
           (r, etags'', evs') \<Rightarrow>
             (r, etags'',
              map (\<lambda>j. EvPut (urls ! j) (chunk fileData (nat ?P) j)) [0..<i] @ evs'))"
    by (simp only: uploadChunks_append first prod.case option.case)
  also have "\<dots> =
           (Some (PanicSliceBounds (int i * ?P) (int (length fileData))),
            map (\<lambda>j. etag_of (resps j)) [0..<i],
            map (\<lambda>j. EvPut (urls ! j) (chunk fileData (nat ?P) j)) [0..<i])"
    by (simp only: len add_0 second prod.case append_Nil2)
  finally have "uploadChunks R fileData perSize 0
                  (take i urls @ (urls ! i # drop (Suc i) urls)) [] =
           (Some (PanicSliceBounds (int i * ?P) (int (length fileData))),
            map (\<lambda>j. etag_of (resps j)) [0..<i],
            map (\<lambda>j. EvPut (urls ! j) (chunk fileData (nat ?P) j)) [0..<i])" .
  with split show ?thesis by (simp only:)
qed

text \<open>
  Claim C9. For a non-negative chunk size, with \<open>(i + 1) * perSize\<close> inside the
  \<open>int64\<close> range: the bounds computed for chunk \<open>i\<close> are \<open>i * perSize\<close>, as it
  is, and \<open>(i + 1) * perSize\<close> clamped to the length of the file. The slice expression
  has a value exactly when \<open>i * perSize\<close> does not exceed the length of the file;
  otherwise its lower bound is above its upper bound and it panics. So when the plan has
  a URL index \<open>i\<close> with \<open>i * perSize\<close> above the length of the file, the first such one,
  and the chunks before it are accepted, \<open>upload\<close> ends in that panic and not in a
  returned error, and so do steps 1 to 4 of \<open>Run\<close>; the number of URLs of such a plan
  exceeds the length of the file divided by \<open>perSize\<close>, rounded up.
\<close>

theorem upload_slice_precondition:
  assumes P: "0 \<le> sint perSize"
    and nov: "int i * sint perSize + sint perSize < 2 ^ 63"
    and n: "length fileData < 2 ^ 63"
  shows "chunkBounds perSize (length fileData) i =
           (int i * sint perSize,
            min (int i * sint perSize + sint perSize) (int (length fileData)))
       \<and> snd (chunkBounds perSize (length fileData) i) \<le> int (length fileData)
       \<and> ((\<exists>c. slice fileData (fst (chunkBounds perSize (length fileData) i))
                              (snd (chunkBounds perSize (length fileData) i)) = Inr c)
            \<longleftrightarrow> int i * sint perSize \<le> int (length fileData))
       \<and> (int (length fileData) < int i * sint perSize \<longrightarrow>
            snd (chunkBounds perSize (length fileData) i)
              < fst (chunkBounds perSize (length fileData) i)
          \<and> slice fileData (fst (chunkBounds perSize (length fileData) i))
                              (snd (chunkBounds perSize (length fileData) i))
              = Inl (PanicSliceBounds (int i * sint perSize) (int (length fileData))))
       \<and> (fs (AudioPath asr) = Some fileData
            \<and> requestUpload R
                 (formValues (if AudioFormat asr = [] then ''mp3'' else AudioFormat asr)
                    (length fileData)) = Reply plan
            \<and> up_code plan = 0
            \<and> up_per_size plan = perSize
            \<and> i < length (up_upload_urls plan)
            \<and> int (length fileData) < int i * sint perSize
            \<and> (\<forall>j < i. int j * sint perSize \<le> int (length fileData))
            \<and> (\<forall>j < i. putChunk R j (up_upload_urls plan ! j)
                                (chunk fileData (nat (sint perSize)) j) = PutResponse (resps j)
                         \<and> (StatusCode (resps j) = 200 \<or> StatusCode (resps j) = 201))
            \<longrightarrow>
              fst (upload R fs asr)
                = Some (PanicSliceBounds (int i * sint perSize) (int (length fileData)))
            \<and> fst (Run_steps Unmarshal R fs asr)
                = Inl (PanicSliceBounds (int i * sint perSize) (int (length fileData)))
            \<and> (length fileData + nat (sint perSize) - 1) div nat (sint perSize)
                < length (up_upload_urls plan))"
proof -
  let ?P = "sint perSize"
  let ?n = "int (length fileData)"
  have cb: "chunkBounds perSize (length fileData) i = (int i * ?P, min (int i * ?P + ?P) ?n)"
    using P nov n by (rule chunkBounds_no_overflow)
  have ub: "snd (chunkBounds perSize (length fileData) i) \<le> ?n"
    unfolding cb by simp
  have tot: "(\<exists>c. slice fileData (fst (chunkBounds perSize (length fileData) i))
                              (snd (chunkBounds perSize (length fileData) i)) = Inr c)
            \<longleftrightarrow> int i * ?P \<le> ?n"
    unfolding cb using P by (auto simp add: slice_def)
  have pan: "?n < int i * ?P \<longrightarrow>
            snd (chunkBounds perSize (length fileData) i)
              < fst (chunkBounds perSize (length fileData) i)
          \<and> slice fileData (fst (chunkBounds perSize (length fileData) i))
                              (snd (chunkBounds perSize (length fileData) i))
              = Inl (PanicSliceBounds (int i * ?P) ?n)"
    unfolding cb using P by (auto simp add: slice_def min_def)
  have up: "fs (AudioPath asr) = Some fileData
            \<and> requestUpload R
                 (formValues (if AudioFormat asr = [] then ''mp3'' else AudioFormat asr)
                    (length fileData)) = Reply plan
            \<and> up_code plan = 0
            \<and> up_per_size plan = perSize
            \<and> i < length (up_upload_urls plan)
            \<and> ?n < int i * ?P
            \<and> (\<forall>j < i. int j * ?P \<le> ?n)
            \<and> (\<forall>j < i. putChunk R j (up_upload_urls plan ! j)
                                (chunk fileData (nat ?P) j) = PutResponse (resps j)
                         \<and> (StatusCode (resps j) = 200 \<or> StatusCode (resps j) = 201))
            \<longrightarrow>
              fst (upload R fs asr) = Some (PanicSliceBounds (int i * ?P) ?n)
            \<and> fst (Run_steps Unmarshal R fs asr) = Inl (PanicSliceBounds (int i * ?P) ?n)
            \<and> (length fileData + nat ?P - 1) div nat ?P < length (up_upload_urls plan)"
  proof (intro impI)
    assume a: "fs (AudioPath asr) = Some fileData
            \<and> requestUpload R
                 (formValues (if AudioFormat asr = [] then ''mp3'' else AudioFormat asr)
                    (length fileData)) = Reply plan
            \<and> up_code plan = 0
            \<and> up_per_size plan = perSize
            \<and> i < length (up_upload_urls plan)
            \<and> ?n < int i * ?P
            \<and> (\<forall>j < i. int j * ?P \<le> ?n)
            \<and> (\<forall>j < i. putChunk R j (up_upload_urls plan ! j)
                                (chunk fileData (nat ?P) j) = PutResponse (resps j)
                         \<and> (StatusCode (resps j) = 200 \<or> StatusCode (resps j) = 201))"
    then have fd: "fs (AudioPath asr) = Some fileData"
      and plan: "requestUpload R
                 (formValues (if AudioFormat asr = [] then ''mp3'' else AudioFormat asr)
                    (length fileData)) = Reply plan"
      and code: "up_code plan = 0" and sz: "up_per_size plan = perSize"
      and i: "i < length (up_upload_urls plan)" and gt: "?n < int i * ?P"
      and le: "\<forall>j < i. int j * ?P \<le> ?n"
      and ok: "\<forall>j < i. putChunk R j (up_upload_urls plan ! j)
                                (chunk fileData (nat ?P) j) = PutResponse (resps j)
                         \<and> (StatusCode (resps j) = 200 \<or> StatusCode (resps j) = 201)"
      by blast+
    have chunks: "uploadChunks R fileData (up_per_size plan) 0 (up_upload_urls plan) [] =
           (Some (PanicSliceBounds (int i * ?P) ?n),
            map (\<lambda>j. etag_of (resps j)) [0..<i],
            map (\<lambda>j. EvPut (up_upload_urls plan ! j) (chunk fileData (nat ?P) j)) [0..<i])"
      unfolding sz using P nov n i gt le ok by (rule uploadChunks_panic_at)
    have u: "fst (upload R fs asr) = Some (PanicSliceBounds (int i * ?P) ?n)"
      unfolding upload_chunk_error [where fs = fs and asr = asr, OF fd plan code chunks]
      by simp
    have r: "fst (Run_steps Unmarshal R fs asr) = Inl (PanicSliceBounds (int i * ?P) ?n)"
      unfolding Run_steps_def
        upload_chunk_error [where fs = fs and asr = asr, OF fd plan code chunks]
      by simp
    have ppos: "0 < nat ?P"
    proof (rule ccontr)
      assume "\<not> 0 < nat ?P"
      then have "?P = 0" using P by simp
      with gt show False by simp
    qed
    have "int (length fileData) < int (i * nat ?P)" using gt P by simp
    then have "length fileData < i * nat ?P" by (simp only: of_nat_less_iff)
    then have "length fileData + nat ?P - 1 < (i + 1) * nat ?P" using ppos by simp
    also have "\<dots> \<le> length (up_upload_urls plan) * nat ?P"
      using i by (intro mult_le_mono1) simp
    finally have c: "(length fileData + nat ?P - 1) div nat ?P < length (up_upload_urls plan)"
      using ppos by (simp add: div_less_iff_less_mult)
    from u r c show "fst (upload R fs asr) = Some (PanicSliceBounds (int i * ?P) ?n)
            \<and> fst (Run_steps Unmarshal R fs asr) = Inl (PanicSliceBounds (int i * ?P) ?n)
            \<and> (length fileData + nat ?P - 1) div nat ?P < length (up_upload_urls plan)"
      by blast
  qed
  from cb ub tot pan up show ?thesis by blast
qed


text \<open>The theorem at the plan with chunk size 10 and three URLs over the file of 16 bytes.\<close>

theorem upload_slice_precondition_witness:
  "0 \<le> sint (10 :: 64 word)
   \<and> length ex_file = 16
   \<and> length (up_upload_urls (ex_plan\<lparr>up_per_size := 10\<rparr>)) = 3
   \<and> chunkBounds 10 (length ex_file) 2 = (20, 16)
   \<and> fst (upload ex_remote_over ex_fs_audio (ex_asr\<lparr>AudioPath := ''s.wav''\<rparr>))
       = Some (PanicSliceBounds 20 16)
   \<and> fst (Run_steps ex_Unmarshal ex_remote_over ex_fs_audio (ex_asr\<lparr>AudioPath := ''s.wav''\<rparr>))
       = Inl (PanicSliceBounds 20 16)
   \<and> (16 + 10 - 1) div 10 < (3 :: nat)"
proof -
  have P: "0 \<le> sint (10 :: 64 word)" by simp
  have nov: "int 2 * sint (10 :: 64 word) + sint (10 :: 64 word) < 2 ^ 63" by simp
  have len: "length ex_file = 16" by (simp add: ex_file_def)
  have n: "length ex_file < 2 ^ 63" by (simp add: len)
  have k: "length (up_upload_urls (ex_plan\<lparr>up_per_size := 10\<rparr>)) = 3"
    by (simp add: ex_plan_def)
  have hyp: "ex_fs_audio (AudioPath (ex_asr\<lparr>AudioPath := ''s.wav''\<rparr>)) = Some ex_file
            \<and> requestUpload ex_remote_over
                 (formValues (if AudioFormat (ex_asr\<lparr>AudioPath := ''s.wav''\<rparr>) = []
                              then ''mp3''
                              else AudioFormat (ex_asr\<lparr>AudioPath := ''s.wav''\<rparr>))
                    (length ex_file)) = Reply (ex_plan\<lparr>up_per_size := 10\<rparr>)
            \<and> up_code (ex_plan\<lparr>up_per_size := 10\<rparr>) = 0
            \<and> up_per_size (ex_plan\<lparr>up_per_size := 10\<rparr>) = 10
            \<and> 2 < length (up_upload_urls (ex_plan\<lparr>up_per_size := 10\<rparr>))
            \<and> int (length ex_file) < int 2 * sint (10 :: 64 word)
            \<and> (\<forall>j < 2. int j * sint (10 :: 64 word) \<le> int (length ex_file))
            \<and> (\<forall>j < 2. putChunk ex_remote_over j
                                (up_upload_urls (ex_plan\<lparr>up_per_size := 10\<rparr>) ! j)
                                (chunk ex_file (nat (sint (10 :: 64 word))) j)
                              = PutResponse (ex_put_ok j)
                         \<and> (StatusCode (ex_put_ok j) = 200 \<or> StatusCode (ex_put_ok j) = 201))"
    unfolding len k
    by (auto simp add: ex_fs_audio_def ex_remote_over_def ex_remote_def ex_plan_def
        ex_put_ok_def)
  from upload_slice_precondition [where perSize = 10 and i = 2 and fileData = ex_file
      and fs = ex_fs_audio and asr = "ex_asr\<lparr>AudioPath := ''s.wav''\<rparr>"
      and R = ex_remote_over and plan = "ex_plan\<lparr>up_per_size := 10\<rparr>"
      and resps = ex_put_ok and Unmarshal = ex_Unmarshal, OF P nov n] hyp
  have "chunkBounds 10 (length ex_file) 2 = (20, 16)
   \<and> fst (upload ex_remote_over ex_fs_audio (ex_asr\<lparr>AudioPath := ''s.wav''\<rparr>))
       = Some (PanicSliceBounds 20 16)
   \<and> fst (Run_steps ex_Unmarshal ex_remote_over ex_fs_audio (ex_asr\<lparr>AudioPath := ''s.wav''\<rparr>))
       = Inl (PanicSliceBounds 20 16)"
    unfolding len by simp
  moreover have "(16 + 10 - 1) div 10 < (3 :: nat)" by simp
  ultimately show ?thesis using P len k by blast
qed


section \<open>Properties of the polling\<close>

lemma attempts_Suc:
  "attempts t (Suc m) = EvGet API_QUERY_RESULT t # EvSleep 3 # attempts t m"
  by (simp add: attempts_def)

lemma attempts_0: "attempts t 0 = []"
  by (simp add: attempts_def)

lemma attempts_snoc:
  "attempts t (Suc m) = attempts t m @ [EvGet API_QUERY_RESULT t, EvSleep 3]"
  by (induction m) (simp_all add: attempts_def)

lemma pollLoop_timeout: "pollLoop Unmarshal R t 500 = (Inl ErrTimeout, [])"
  by (subst pollLoop.simps) simp

lemma pollLoop_continue:
  assumes "i < 500" and "continues (queryResult R i t)"
  shows "pollLoop Unmarshal R t i =
         (case pollLoop Unmarshal R t (i + 1) of
            (r, evs) \<Rightarrow> (r, EvGet API_QUERY_RESULT t # EvSleep 3 # evs))"
  using assms
  by (subst pollLoop.simps) (auto simp add: continues_def split: queryReply.splits)




lemma pollLoop_shape:
  assumes "500 - i = k" and "i \<le> 500"
  shows "\<exists>m. (snd (pollLoop Unmarshal R t i) = attempts t m @ [EvGet API_QUERY_RESULT t]
              \<and> i + m < 500)
           \<or> (snd (pollLoop Unmarshal R t i) = attempts t m
              \<and> i + m < 500
              \<and> fst (pollLoop Unmarshal R t i) = Inl ErrNewRequest)
           \<or> (snd (pollLoop Unmarshal R t i) = attempts t (500 - i)
              \<and> fst (pollLoop Unmarshal R t i) = Inl ErrTimeout)"
  using assms
proof (induction k arbitrary: i)
  case 0
  then have "i = 500" by simp
  then show ?case by (simp add: pollLoop_timeout attempts_0)
next
  case (Suc k)
  then have i: "i < 500" by simp
  show ?case
  proof (cases "continues (queryResult R i t)")
    case True
    have k: "500 - (i + 1) = k" and le: "i + 1 \<le> 500" using Suc.prems by simp_all
    obtain r evs where p: "pollLoop Unmarshal R t (i + 1) = (r, evs)"
      by (cases "pollLoop Unmarshal R t (i + 1)")
    have s: "500 - i = Suc (500 - (i + 1))" using i by simp
    from Suc.IH [OF k le] p
    consider m where "evs = attempts t m @ [EvGet API_QUERY_RESULT t]" "i + 1 + m < 500"
      | m where "evs = attempts t m" "i + 1 + m < 500" "r = Inl ErrNewRequest"
      | "evs = attempts t (500 - (i + 1))" "r = Inl ErrTimeout"
      by auto
    then show ?thesis
    proof cases
      case 1
      then have "snd (pollLoop Unmarshal R t i) = attempts t (Suc m) @ [EvGet API_QUERY_RESULT t]
                 \<and> i + Suc m < 500"
        unfolding pollLoop_continue [OF i True] p by (simp add: attempts_Suc)
      then show ?thesis by blast
    next
      case 2
      then have "snd (pollLoop Unmarshal R t i) = attempts t (Suc m)
                 \<and> i + Suc m < 500
                 \<and> fst (pollLoop Unmarshal R t i) = Inl ErrNewRequest"
        unfolding pollLoop_continue [OF i True] p by (simp add: attempts_Suc)
      then show ?thesis by blast
    next
      case 3
      then have "snd (pollLoop Unmarshal R t i) = attempts t (500 - i)
              \<and> fst (pollLoop Unmarshal R t i) = Inl ErrTimeout"
        unfolding pollLoop_continue [OF i True] p s by (simp add: attempts_Suc)
      then show ?thesis by blast
    qed
  next
    case False
    show ?thesis
    proof (cases "queryResult R i t = QueryBadRequest")
      case True
      then have "snd (pollLoop Unmarshal R t i) = attempts t 0
                 \<and> fst (pollLoop Unmarshal R t i) = Inl ErrNewRequest"
        using i by (subst (1 2) pollLoop.simps) (simp add: attempts_0)
      with i show ?thesis by force
    next
      case sent: False
      with False have "snd (pollLoop Unmarshal R t i) = attempts t 0 @ [EvGet API_QUERY_RESULT t]"
        using i
        by (subst pollLoop.simps)
           (auto simp add: continues_def attempts_0 split: queryReply.splits option.splits)
      with i show ?thesis by force
    qed
  qed
qed


lemma pollLoop_bad_request:
  assumes "i < 500" and "queryResult R i t = QueryBadRequest"
  shows "pollLoop Unmarshal R t i = (Inl ErrNewRequest, [])"
  using assms by (subst pollLoop.simps) simp




text \<open>The \<open>gomedia\<close> variant reports the remark of a failed task as it is.\<close>

lemma pollLoop_gomedia_failed:
  assumes "i < 500" and "queryResult R i t = QueryReply q" and "qr_code q = 0" and "qr_state q = 3"
  shows "pollLoop_gomedia Unmarshal R t i =
         (Inl (ErrASRFailed (qr_remark q)), [EvGet API_QUERY_RESULT t])"
  using assms
  by (subst pollLoop_gomedia.simps) simp


section \<open>Properties of Run\<close>

lemma audioExts_lookup_iff:
  "audioExts_lookup ext \<longleftrightarrow>
     ext \<in> {''.mp3'', ''.wav'', ''.flac'', ''.m4a'', ''.ogg'', ''.aac'', ''.wma''}"
  by (auto simp add: audioExts_lookup_def audioExts_def)

lemma uploadChunks_no_extract:
  assumes "uploadChunks R fileData perSize i urls etags = (r, etags', evs)"
  shows "filter is_extract evs = []"
  using assms
proof (induction urls arbitrary: i etags r etags' evs)
  case Nil
  then show ?case by simp
next
  case (Cons u rest)
  obtain start end1 where cb: "chunkBounds perSize (length fileData) i = (start, end1)"
    by (cases "chunkBounds perSize (length fileData) i")
  show ?case
  proof (cases "slice fileData start end1")
    case (Inl p)
    with Cons.prems cb show ?thesis by auto
  next
    case (Inr chunk)
    show ?thesis
    proof (cases "putChunk R i u chunk")
      case PutBadRequest
      with Cons.prems cb Inr show ?thesis by auto
    next
      case PutTransportFailure
      with Cons.prems cb Inr show ?thesis by auto
    next
      case (PutResponse resp)
      show ?thesis
      proof (cases "StatusCode resp \<noteq> 200 \<and> StatusCode resp \<noteq> 201")
        case True
        with Cons.prems cb Inr PutResponse show ?thesis by auto
      next
        case False
        obtain r1 e1 evs1 where
          rec: "uploadChunks R fileData perSize (i + 1) rest (etags @ [etag_of resp])
                  = (r1, e1, evs1)"
          by (cases "uploadChunks R fileData perSize (i + 1) rest (etags @ [etag_of resp])")
        have "evs = EvPut u chunk # evs1"
          using Cons.prems cb Inr PutResponse False rec
          by (simp add: etag_of_def [symmetric])
        moreover have "filter is_extract evs1 = []" using rec by (rule Cons.IH)
        ultimately show ?thesis by simp
      qed
    qed
  qed
qed

lemma upload_trace_and_receiver:
  "filter is_extract (snd (snd (upload R fs asr))) = []
   \<and> AudioPath (fst (snd (upload R fs asr))) = AudioPath asr
   \<and> AudioFormat (fst (snd (upload R fs asr))) = AudioFormat asr"
proof (cases "fs (AudioPath asr)")
  case None
  then show ?thesis by (simp add: upload_def)
next
  case (Some fileData)
  let ?fmt = "if AudioFormat asr = [] then ''mp3'' else AudioFormat asr"
  show ?thesis
  proof (cases "requestUpload R (formValues ?fmt (length fileData))")
    case TransportFailure
    with Some show ?thesis by (simp add: upload_def)
  next
    case ReadFailure
    with Some show ?thesis by (simp add: upload_def)
  next
    case DecodeFailure
    with Some show ?thesis by (simp add: upload_def)
  next
    case (Reply plan)
    show ?thesis
    proof (cases "up_code plan = 0")
      case False
      with Some Reply show ?thesis by (simp add: upload_def)
    next
      case True
      obtain r etags evs where
        ch: "uploadChunks R fileData (up_per_size plan) 0 (up_upload_urls plan) [] =
               (r, etags, evs)"
        by (cases "uploadChunks R fileData (up_per_size plan) 0 (up_upload_urls plan) []")
      have ne: "filter is_extract evs = []" using ch by (rule uploadChunks_no_extract)
      show ?thesis
      proof (cases r)
        case (Some err)
        with \<open>fs (AudioPath asr) = Some fileData\<close> Reply True ch ne show ?thesis
          by (simp add: upload_def)
      next
        case None
        with \<open>fs (AudioPath asr) = Some fileData\<close> Reply True ch ne show ?thesis
          by (simp add: upload_def Let_def split: reply.splits)
      qed
    qed
  qed
qed

lemma createTask_trace_and_receiver:
  "filter is_extract (snd (snd (createTask R asr))) = []
   \<and> AudioPath (fst (snd (createTask R asr))) = AudioPath asr
   \<and> AudioFormat (fst (snd (createTask R asr))) = AudioFormat asr"
  unfolding createTask_def by (simp add: Let_def split: reply.splits)

lemma attempts_no_extract: "filter is_extract (attempts t m) = []"
  by (induction m) (simp_all add: attempts_0 attempts_Suc)

lemma pollResult_no_extract:
  "filter is_extract (snd (pollResult Unmarshal R asr)) = []"
  using pollLoop_shape [of 0 500 Unmarshal R "TaskID asr"]
  by (auto simp add: pollResult_def attempts_no_extract)

lemma Run_steps_trace_and_receiver:
  "filter is_extract (snd (snd (Run_steps Unmarshal R fs asr))) = []
   \<and> AudioPath (fst (snd (Run_steps Unmarshal R fs asr))) = AudioPath asr
   \<and> AudioFormat (fst (snd (Run_steps Unmarshal R fs asr))) = AudioFormat asr"
proof -
  obtain r1 asr1 ev1 where u: "upload R fs asr = (r1, asr1, ev1)"
    by (cases "upload R fs asr")
  with upload_trace_and_receiver [of R fs asr]
  have u': "filter is_extract ev1 = []" "AudioPath asr1 = AudioPath asr"
    "AudioFormat asr1 = AudioFormat asr"
    by simp_all
  obtain r2 asr2 ev2 where c: "createTask R asr1 = (r2, asr2, ev2)"
    by (cases "createTask R asr1")
  with createTask_trace_and_receiver [of R asr1] u'
  have c': "filter is_extract ev2 = []" "AudioPath asr2 = AudioPath asr"
    "AudioFormat asr2 = AudioFormat asr"
    by simp_all
  obtain r3 ev3 where p: "pollResult Unmarshal R asr2 = (r3, ev3)"
    by (cases "pollResult Unmarshal R asr2")
  with pollResult_no_extract [of Unmarshal R asr2]
  have p': "filter is_extract ev3 = []" by simp
  show ?thesis
    unfolding Run_steps_def u
    using u' c c' p p'
    by (cases r1; cases r2; cases r3) simp_all
qed


lemma TrimPrefix_dot:
  assumes "ext \<in> {''.mp3'', ''.wav'', ''.flac'', ''.m4a'', ''.ogg'', ''.aac'', ''.wma''}"
  shows "TrimPrefix ext ''.'' = drop 1 ext"
  using assms by (auto simp add: TrimPrefix_def)

text \<open>
  Claim C10. The trace of \<open>Run\<close> holds a call of \<open>videoToAudio\<close> if and only if
  the lower-cased extension of the input path is outside the set \<open>.mp3\<close>, \<open>.wav\<close>,
  \<open>.flac\<close>, \<open>.m4a\<close>, \<open>.ogg\<close>, \<open>.aac\<close>, \<open>.wma\<close>; then the call is the
  first thing \<open>Run\<close> does, on the input path, and the only such call. When the
  extension is in the set, \<open>Run\<close> is steps 1 to 4 on the file system and the path as
  they are, with the extension without its dot as the format: the result does not depend
  on what probing the file would give, the file system is left as it was, and the path
  and that format are still in the receiver afterwards. In particular a path with the
  extension \<open>.m4a\<close> is never extracted, whatever the file is.
\<close>

theorem Run_extraction_gate:
  "((filter is_extract (snd (snd (snd (Run H Unmarshal R fs asr)))) \<noteq> [])
      \<longleftrightarrow> ToLower (Ext (AudioPath asr))
            \<notin> {''.mp3'', ''.wav'', ''.flac'', ''.m4a'', ''.ogg'', ''.aac'', ''.wma''})
   \<and> (ToLower (Ext (AudioPath asr))
         \<notin> {''.mp3'', ''.wav'', ''.flac'', ''.m4a'', ''.ogg'', ''.aac'', ''.wma''} \<longrightarrow>
        (\<exists>evs. snd (snd (snd (Run H Unmarshal R fs asr)))
                 = EvVideoToAudio (AudioPath asr) # evs)
      \<and> filter is_extract (snd (snd (snd (Run H Unmarshal R fs asr))))
          = [EvVideoToAudio (AudioPath asr)])
   \<and> (ToLower (Ext (AudioPath asr))
         \<in> {''.mp3'', ''.wav'', ''.flac'', ''.m4a'', ''.ogg'', ''.aac'', ''.wma''} \<longrightarrow>
        Run H Unmarshal R fs asr =
          (case Run_steps Unmarshal R fs
                  (asr\<lparr>AudioFormat := drop 1 (ToLower (Ext (AudioPath asr)))\<rparr>) of
             (r, asr1, evs) \<Rightarrow> (r, asr1, fs, evs))
      \<and> Run H Unmarshal R fs asr = Run H' Unmarshal R fs asr
      \<and> fst (snd (snd (Run H Unmarshal R fs asr))) = fs
      \<and> AudioPath (fst (snd (Run H Unmarshal R fs asr))) = AudioPath asr
      \<and> AudioFormat (fst (snd (Run H Unmarshal R fs asr)))
          = drop 1 (ToLower (Ext (AudioPath asr))))
   \<and> (ToLower (Ext (AudioPath asr)) = ''.m4a'' \<longrightarrow>
        filter is_extract (snd (snd (snd (Run H Unmarshal R fs asr)))) = []
      \<and> fst (snd (snd (Run H Unmarshal R fs asr))) = fs
      \<and> AudioFormat (fst (snd (Run H Unmarshal R fs asr))) = ''m4a'')"
proof -
  let ?ext = "ToLower (Ext (AudioPath asr))"
  let ?S = "{''.mp3'', ''.wav'', ''.flac'', ''.m4a'', ''.ogg'', ''.aac'', ''.wma''}"
  let ?run = "Run H Unmarshal R fs asr"
  have out: "?ext \<notin> ?S \<longrightarrow>
        (\<exists>evs. snd (snd (snd ?run)) = EvVideoToAudio (AudioPath asr) # evs)
      \<and> filter is_extract (snd (snd (snd ?run))) = [EvVideoToAudio (AudioPath asr)]"
  proof
    assume "?ext \<notin> ?S"
    then have no: "\<not> audioExts_lookup ?ext" by (simp only: audioExts_lookup_iff simp_thms)
    obtain res fs1 where v: "videoToAudio H fs (AudioPath asr) = (res, fs1)"
      by (cases "videoToAudio H fs (AudioPath asr)")
    show "(\<exists>evs. snd (snd (snd ?run)) = EvVideoToAudio (AudioPath asr) # evs)
      \<and> filter is_extract (snd (snd (snd ?run))) = [EvVideoToAudio (AudioPath asr)]"
    proof (cases res)
      case (Inl err)
      with no v show ?thesis by (simp add: Run_def Let_def)
    next
      case (Inr pf)
      obtain extractedPath audioFmt where pf: "pf = (extractedPath, audioFmt)" by (cases pf)
      let ?asr1 = "asr\<lparr>AudioFormat := audioFmt, AudioPath := extractedPath\<rparr>"
      obtain r asr2 evs where st: "Run_steps Unmarshal R fs1 ?asr1 = (r, asr2, evs)"
        by (cases "Run_steps Unmarshal R fs1 ?asr1")
      with Run_steps_trace_and_receiver [of Unmarshal R fs1 ?asr1]
      have "filter is_extract evs = []" by simp
      with no v Inr pf st show ?thesis by (simp add: Run_def Let_def)
    qed
  qed
  have inn: "?ext \<in> ?S \<longrightarrow>
        ?run =
          (case Run_steps Unmarshal R fs (asr\<lparr>AudioFormat := drop 1 ?ext\<rparr>) of
             (r, asr1, evs) \<Rightarrow> (r, asr1, fs, evs))
      \<and> ?run = Run H' Unmarshal R fs asr
      \<and> fst (snd (snd ?run)) = fs
      \<and> AudioPath (fst (snd ?run)) = AudioPath asr
      \<and> AudioFormat (fst (snd ?run)) = drop 1 ?ext
      \<and> filter is_extract (snd (snd (snd ?run))) = []"
  proof
    assume a: "?ext \<in> ?S"
    then have yes: "audioExts_lookup ?ext" by (simp only: audioExts_lookup_iff simp_thms)
    let ?asr1 = "asr\<lparr>AudioFormat := drop 1 ?ext\<rparr>"
    have run: "Run P Unmarshal R fs asr =
          (case Run_steps Unmarshal R fs ?asr1 of (r, asr1, evs) \<Rightarrow> (r, asr1, fs, evs))" for P
      using yes by (simp add: Run_def Let_def TrimPrefix_dot [OF a])
    obtain r asr2 evs where st: "Run_steps Unmarshal R fs ?asr1 = (r, asr2, evs)"
      by (cases "Run_steps Unmarshal R fs ?asr1")
    with Run_steps_trace_and_receiver [of Unmarshal R fs ?asr1]
    have k: "filter is_extract evs = []" "AudioPath asr2 = AudioPath asr"
      "AudioFormat asr2 = drop 1 ?ext"
      by simp_all
    show "?run =
          (case Run_steps Unmarshal R fs ?asr1 of (r, asr1, evs) \<Rightarrow> (r, asr1, fs, evs))
      \<and> ?run = Run H' Unmarshal R fs asr
      \<and> fst (snd (snd ?run)) = fs
      \<and> AudioPath (fst (snd ?run)) = AudioPath asr
      \<and> AudioFormat (fst (snd ?run)) = drop 1 ?ext
      \<and> filter is_extract (snd (snd (snd ?run))) = []"
      unfolding run st using k by simp
  qed
  have iff: "(filter is_extract (snd (snd (snd ?run))) \<noteq> []) \<longleftrightarrow> ?ext \<notin> ?S"
  proof (cases "?ext \<in> ?S")
    case True
    with inn have "filter is_extract (snd (snd (snd ?run))) = []" by blast
    with True show ?thesis by blast
  next
    case False
    with out have "filter is_extract (snd (snd (snd ?run))) = [EvVideoToAudio (AudioPath asr)]"
      by blast
    then have "filter is_extract (snd (snd (snd ?run))) \<noteq> []" by simp
    with False show ?thesis by blast
  qed
  have m4a: "?ext = ''.m4a'' \<longrightarrow>
        filter is_extract (snd (snd (snd ?run))) = []
      \<and> fst (snd (snd ?run)) = fs
      \<and> AudioFormat (fst (snd ?run)) = ''m4a''"
  proof
    assume e: "?ext = ''.m4a''"
    then have "?ext \<in> ?S" by simp
    with inn have "filter is_extract (snd (snd (snd ?run))) = []
      \<and> fst (snd (snd ?run)) = fs
      \<and> AudioFormat (fst (snd ?run)) = drop 1 ?ext"
      by blast
    then show "filter is_extract (snd (snd (snd ?run))) = []
      \<and> fst (snd (snd ?run)) = fs
      \<and> AudioFormat (fst (snd ?run)) = ''m4a''"
      by (simp add: e)
  qed
  from iff out inn m4a show ?thesis by blast
qed

lemma ex_ext_m4a: "ToLower (Ext ''talk.M4A'') = ''.m4a''"
  by code_simp

lemma ex_ext_mp4: "ToLower (Ext ''v.mp4'') = ''.mp4''"
  by code_simp

text \<open>
  The theorem at \<open>talk.M4A\<close>, a file that probes as an MP4 container with an AAC
  track, and at \<open>v.mp4\<close>.
\<close>

theorem Run_extraction_gate_witness:
  "ToLower (Ext ''talk.M4A'') = ''.m4a''
   \<and> ex_fs_m4a ''talk.M4A'' = Some ex_file
   \<and> Probe (ex_host [ex_track_aac]) ex_file = Some [ex_track_aac]
   \<and> filter is_extract
         (snd (snd (snd (Run (ex_host [ex_track_aac]) ex_Unmarshal ex_remote ex_fs_m4a
                           (ex_asr\<lparr>AudioPath := ''talk.M4A''\<rparr>))))) = []
   \<and> fst (snd (snd (Run (ex_host [ex_track_aac]) ex_Unmarshal ex_remote ex_fs_m4a
                           (ex_asr\<lparr>AudioPath := ''talk.M4A''\<rparr>)))) = ex_fs_m4a
   \<and> AudioFormat (fst (snd (Run (ex_host [ex_track_aac]) ex_Unmarshal ex_remote
                                 ex_fs_m4a (ex_asr\<lparr>AudioPath := ''talk.M4A''\<rparr>)))) = ''m4a''
   \<and> ToLower (Ext ''v.mp4'') = ''.mp4''
   \<and> filter is_extract
         (snd (snd (snd (Run (ex_host [ex_track_aac]) ex_Unmarshal ex_remote ex_fs
                           (ex_asr\<lparr>AudioPath := ''v.mp4''\<rparr>)))))
       = [EvVideoToAudio ''v.mp4'']"
proof -
  have 1: "ToLower (Ext (AudioPath (ex_asr\<lparr>AudioPath := ''talk.M4A''\<rparr>))) = ''.m4a''"
    by (simp add: ex_ext_m4a)
  have 2: "ToLower (Ext (AudioPath (ex_asr\<lparr>AudioPath := ''v.mp4''\<rparr>)))
           \<notin> {''.mp3'', ''.wav'', ''.flac'', ''.m4a'', ''.ogg'', ''.aac'', ''.wma''}"
    by (simp add: ex_ext_mp4)
  have 3: "ex_fs_m4a ''talk.M4A'' = Some ex_file" by (simp add: ex_fs_m4a_def)
  have 4: "Probe (ex_host [ex_track_aac]) ex_file = Some [ex_track_aac]" by (simp add: ex_host_def ex_Probe_def)
  from Run_extraction_gate [of "ex_host [ex_track_aac]" ex_Unmarshal ex_remote ex_fs_m4a
      "ex_asr\<lparr>AudioPath := ''talk.M4A''\<rparr>"] 1
  have a: "filter is_extract
         (snd (snd (snd (Run (ex_host [ex_track_aac]) ex_Unmarshal ex_remote ex_fs_m4a
                           (ex_asr\<lparr>AudioPath := ''talk.M4A''\<rparr>))))) = []
   \<and> fst (snd (snd (Run (ex_host [ex_track_aac]) ex_Unmarshal ex_remote ex_fs_m4a
                           (ex_asr\<lparr>AudioPath := ''talk.M4A''\<rparr>)))) = ex_fs_m4a
   \<and> AudioFormat (fst (snd (Run (ex_host [ex_track_aac]) ex_Unmarshal ex_remote
                                 ex_fs_m4a (ex_asr\<lparr>AudioPath := ''talk.M4A''\<rparr>)))) = ''m4a''"
    by blast
  from Run_extraction_gate [of "ex_host [ex_track_aac]" ex_Unmarshal ex_remote ex_fs
      "ex_asr\<lparr>AudioPath := ''v.mp4''\<rparr>"] 2
  have b: "filter is_extract
         (snd (snd (snd (Run (ex_host [ex_track_aac]) ex_Unmarshal ex_remote ex_fs
                           (ex_asr\<lparr>AudioPath := ''v.mp4''\<rparr>)))))
       = [EvVideoToAudio ''v.mp4'']"
    by simp
  from a b 3 4 show ?thesis by (simp add: ex_ext_m4a ex_ext_mp4)
qed


end
